theory Spec2Isabelle
  imports Complex_Main "HOL-Library.Char_ord" "HOL-Library.List_Lexorder"
begin

section \<open>A proof-of-work ledger: the embedding of \<^verbatim>\<open>blockchain.py\<close>\<close>

text \<open>
  The development follows the source file top-down: the helper functions of the Python
  runtime that the code relies on (decimal printing of integers, \<^verbatim>\<open>str.split\<close>,
  \<^verbatim>\<open>int\<close>, \<^verbatim>\<open>json.dumps\<close>), then the classes \<^verbatim>\<open>Address\<close>,
  \<^verbatim>\<open>Transaction\<close> and \<^verbatim>\<open>Blockchain\<close> with their methods.

  Every Python exception that a modelled path can raise is a value of \<open>error\<close>.
\<close>

datatype error =
  AddressNotFound | AttributeError | ValueError | TypeError | IndexError | EcdsaError

subsection \<open>External library functions\<close>

text \<open>
  The code calls three libraries whose bodies are not part of the repository. They are
  parameters of the model, collected in one record that every function using them takes
  as its first argument:
  \<^item> \<open>sha256_hexdigest\<close> is \<^verbatim>\<open>hashlib.sha256(s.encode()).hexdigest()\<close>;
  \<^item> \<open>ecdsa_verify\<close> is \<^verbatim>\<open>fastecdsa.ecdsa.verify(sig, msg, Q)\<close>, which answers
    with a boolean or raises (for a signature or a key out of range);
  \<^item> \<open>float_repr\<close> and \<open>encode_basestring\<close> are the two leaf printers of
    \<^verbatim>\<open>json.dumps\<close>: a float, and a string with its quotes and escapes.

  A Python float is a rational number, NaN or one of the two infinities; all of them
  come out of \<^verbatim>\<open>json.loads\<close>, which accepts \<^verbatim>\<open>NaN\<close>, \<^verbatim>\<open>Infinity\<close> and
  \<^verbatim>\<open>-Infinity\<close>. The two zeros of the floats are not told apart. A string is a list
  of characters with code points below 256.
\<close>

datatype fl = Finite rat | NaN | PosInf | NegInf

record ext =
  sha256_hexdigest :: "string \<Rightarrow> string"
  ecdsa_verify :: "int \<times> int \<Rightarrow> string \<Rightarrow> int \<times> int \<Rightarrow> error + bool"
  float_repr :: "fl \<Rightarrow> string"
  encode_basestring :: "string \<Rightarrow> string"

subsection \<open>Python's \<^verbatim>\<open>str(int)\<close>\<close>

definition digit_char :: "nat \<Rightarrow> char" where
  "digit_char d = ''0123456789'' ! d"

fun str_nat :: "nat \<Rightarrow> string" where
  "str_nat n = (if n < 10 then [digit_char n] else str_nat (n div 10) @ [digit_char (n mod 10)])"

declare str_nat.simps [simp del]

definition str_int :: "int \<Rightarrow> string" where
  "str_int i = (if i < 0 then CHR ''-'' # str_nat (nat (- i)) else str_nat (nat i))"

subsection \<open>\<^verbatim>\<open>json.dumps(value, sort_keys=True)\<close>\<close>

text \<open>
  A JSON value as Python holds it. A \<^verbatim>\<open>dict\<close> is an association list in the order
  in which its keys were inserted, which is the order \<^verbatim>\<open>json.dumps\<close> would print
  them in without \<^verbatim>\<open>sort_keys\<close>. Keys are strings.
\<close>

datatype json =
  JNull
| JBool bool
| JInt int
| JFloat fl
| JStr string
| JList "json list"
| JDict "(string \<times> json) list"

fun join :: "string \<Rightarrow> string list \<Rightarrow> string" where
  "join sep [] = []"
| "join sep [x] = x"
| "join sep (x # y # ys) = x @ sep @ join sep (y # ys)"

text \<open>
  With \<^verbatim>\<open>sort_keys=True\<close> the encoder prints \<^verbatim>\<open>sorted(dct.items())\<close>: the keys of
  a dict are distinct, so this is the items sorted by key. The separators are the
  defaults, \<^verbatim>\<open>', '\<close> and \<^verbatim>\<open>': '\<close>.
\<close>

fun dumps :: "ext \<Rightarrow> json \<Rightarrow> string" where
  "dumps X JNull = ''null''"
| "dumps X (JBool b) = (if b then ''true'' else ''false'')"
| "dumps X (JInt i) = str_int i"
| "dumps X (JFloat r) = float_repr X r"
| "dumps X (JStr s) = encode_basestring X s"
| "dumps X (JList xs) = ''['' @ join '', '' (map (dumps X) xs) @ '']''"
| "dumps X (JDict kvs) =
     ''{'' @ join '', ''
        (map (\<lambda>kv. encode_basestring X (fst kv) @ '': '' @ dumps X (snd kv))
           (sort_key fst kvs)) @ ''}''"

text \<open>
  Two JSON values hold the same field values when they agree up to the order in which the
  keys of their dicts were inserted: two dicts have the same keys and, under each key,
  values that agree in this sense; two lists agree element by element; two leaves are
  equal. (This is Python's \<^verbatim>\<open>==\<close> on such values, but for its identification of
  \<^verbatim>\<open>1\<close>, \<^verbatim>\<open>1.0\<close> and \<^verbatim>\<open>True\<close>, which are different field values.)
\<close>

fun same_value :: "json \<Rightarrow> json \<Rightarrow> bool" where
  "same_value (JDict xs) (JDict ys) =
     (fst ` set xs = fst ` set ys \<and>
      (\<forall>kv \<in> set xs. \<forall>kw \<in> set ys. fst kv = fst kw \<longrightarrow> same_value (snd kv) (snd kw)))"
| "same_value (JList xs) (JList ys) = list_all2 same_value xs ys"
| "same_value a b = (a = b)"

text \<open>A Python dict holds each key once, at every depth of the value.\<close>

fun keys_distinct :: "json \<Rightarrow> bool" where
  "keys_distinct (JDict kvs) =
     (distinct (map fst kvs) \<and> (\<forall>kv \<in> set kvs. keys_distinct (snd kv)))"
| "keys_distinct (JList xs) = (\<forall>x \<in> set xs. keys_distinct x)"
| "keys_distinct _ = True"

subsection \<open>\<^verbatim>\<open>Blockchain.hash\<close>\<close>

text \<open>
  \<^verbatim>\<open>
  def hash(block):
      block_string = json.dumps(block, sort_keys=True).encode()
      return hashlib.sha256(block_string).hexdigest()
  \<close>
\<close>

definition hash :: "ext \<Rightarrow> json \<Rightarrow> string" where
  "hash X block = (let block_string = dumps X block in sha256_hexdigest X block_string)"

subsection \<open>Proof of work\<close>

text \<open>
  \<^verbatim>\<open>
  def valid_proof(last_proof, proof):
      guess = f'{last_proof}{proof}'.encode()
      guess_hash = hashlib.sha256(guess).hexdigest()
      return guess_hash[:4] == '0000'
  \<close>
\<close>

definition valid_proof :: "ext \<Rightarrow> int \<Rightarrow> int \<Rightarrow> bool" where
  "valid_proof X last_proof prf =
     (let guess = str_int last_proof @ str_int prf;
          guess_hash = sha256_hexdigest X guess
      in take 4 guess_hash = ''0000'')"

text \<open>
  \<^verbatim>\<open>
  def proof_of_work(self, last_proof):
      proof = 0
      while self.valid_proof(last_proof, proof) is False:
          proof += 1
      return proof
  \<close>
  Nothing in the code bounds the search, so the loop is a partial function: \<open>None\<close>
  is a search that never ends.
\<close>

partial_function (option) proof_of_work_loop :: "ext \<Rightarrow> int \<Rightarrow> int \<Rightarrow> int option" where
  "proof_of_work_loop X last_proof prf =
     (if valid_proof X last_proof prf then Some prf
      else proof_of_work_loop X last_proof (prf + 1))"

definition proof_of_work :: "ext \<Rightarrow> int \<Rightarrow> int option" where
  "proof_of_work X last_proof = proof_of_work_loop X last_proof 0"

subsection \<open>Numbers and their order\<close>

text \<open>
  A number that came through JSON is an integer or a float. Python compares the two
  kinds by their exact values, and every comparison with NaN is false: neither
  \<^verbatim>\<open>a < b\<close> nor \<^verbatim>\<open>a >= b\<close> holds when one of them is NaN.
\<close>

datatype number = NInt int | NFloat fl

definition is_nan :: "number \<Rightarrow> bool" where
  "is_nan a = (a = NFloat NaN)"

definition rank :: "number \<Rightarrow> int" where
  "rank a = (case a of NFloat PosInf \<Rightarrow> 1 | NFloat NegInf \<Rightarrow> - 1 | _ \<Rightarrow> 0)"

definition magnitude :: "number \<Rightarrow> rat" where
  "magnitude a = (case a of NInt i \<Rightarrow> of_int i | NFloat (Finite r) \<Rightarrow> r | _ \<Rightarrow> 0)"

definition num_lt :: "number \<Rightarrow> number \<Rightarrow> bool" where
  "num_lt a b =
     (\<not> is_nan a \<and> \<not> is_nan b \<and>
      (rank a < rank b \<or> (rank a = rank b \<and> magnitude a < magnitude b)))"

definition num_ge :: "number \<Rightarrow> number \<Rightarrow> bool" where
  "num_ge a b =
     (\<not> is_nan a \<and> \<not> is_nan b \<and>
      (rank b < rank a \<or> (rank a = rank b \<and> magnitude b \<le> magnitude a)))"

definition number_json :: "number \<Rightarrow> json" where
  "number_json a = (case a of NInt i \<Rightarrow> JInt i | NFloat f \<Rightarrow> JFloat f)"

subsection \<open>Blocks\<close>

text \<open>
  A block is a dict with the keys \<^verbatim>\<open>index\<close>, \<^verbatim>\<open>timestamp\<close>,
  \<^verbatim>\<open>transactions\<close>, \<^verbatim>\<open>proof\<close> and \<^verbatim>\<open>previous_hash\<close>. The genesis block is
  made with \<^verbatim>\<open>previous_hash=1\<close>, every other one with a hex digest, so the field
  holds an integer or a string. The timestamp of a forged block is the float that
  \<^verbatim>\<open>time()\<close> returned; a block that came through JSON carries whatever number its
  sender wrote. Such a block may also have further keys, which the code never reads but
  which \<^verbatim>\<open>json.dumps\<close> prints: they are the field \<open>b_extra\<close>, in the order of
  their insertion after the five known keys. A dict that lacks one of the five keys, or
  holds a value of another type under it, is outside the model.

  The type of the entries of \<^verbatim>\<open>transactions\<close> is a parameter: a chain that came
  through JSON (a peer's answer, the chain file) holds dicts there, a block forged by this
  node holds \<^verbatim>\<open>Transaction\<close> objects. The key \<^verbatim>\<open>proof\<close> is the field
  \<open>blk_proof\<close>, and the keys of a transaction dict are the fields \<open>d_sender\<close> to
  \<open>d_signature\<close>, with \<open>d_extra\<close> for any further keys.
\<close>

datatype phash = HInt int | HStr string

record 't block =
  index :: int
  timestamp :: number
  transactions :: "'t list"
  blk_proof :: int
  previous_hash :: phash
  b_extra :: "(string \<times> json) list"

record tx_dict =
  d_sender :: string
  d_recipient :: string
  d_amount :: int
  d_message :: "string option"
  d_signature :: "string option"
  d_extra :: "(string \<times> json) list"

definition json_opt_str :: "string option \<Rightarrow> json" where
  "json_opt_str v = (case v of None \<Rightarrow> JNull | Some s \<Rightarrow> JStr s)"

definition tx_json :: "tx_dict \<Rightarrow> json" where
  "tx_json d = JDict
     ([(''sender'', JStr (d_sender d)),
       (''recipient'', JStr (d_recipient d)),
       (''amount'', JInt (d_amount d)),
       (''message'', json_opt_str (d_message d)),
       (''signature'', json_opt_str (d_signature d))] @ d_extra d)"

definition block_json :: "tx_dict block \<Rightarrow> json" where
  "block_json b = JDict
     ([(''index'', JInt (index b)),
       (''timestamp'', number_json (timestamp b)),
       (''proof'', JInt (blk_proof b)),
       (''previous_hash'', (case previous_hash b of HInt i \<Rightarrow> JInt i | HStr h \<Rightarrow> JStr h)),
       (''transactions'', JList (map tx_json (transactions b)))] @ b_extra b)"

subsection \<open>\<^verbatim>\<open>Address\<close>, \<^verbatim>\<open>Transaction\<close> and the node's state\<close>

text \<open>
  \<^verbatim>\<open>
  class Address():
      def __init__(self, address):
          self.address = address
          self.amount = 0
  \<close>
  The \<^verbatim>\<open>Address\<close> objects live in the list \<^verbatim>\<open>self.addresses\<close>, which only ever
  grows at its end, and a \<^verbatim>\<open>Transaction\<close> holds a reference to its sender's and its
  recipient's object together with the object's index in that list. The model keeps the
  index: \<open>Ref i\<close> is the object at position \<open>i\<close>, whose fields are read in the
  current state, as a read through the reference is. \<open>Sentinel\<close> is the string
  \<^verbatim>\<open>'0'\<close>, for which \<^verbatim>\<open>get_address\<close> answers \<^verbatim>\<open>('0', None)\<close>.
\<close>

record Address =
  address :: string
  amount :: int

datatype party = Sentinel | Ref nat

text \<open>
  \<^verbatim>\<open>
  class Transaction():
      def __init__(self, sender, recipient, amount, signature=None, message=None):
          self.sender, self.senderIndex = sender
          self.recipient, self.recipientIndex = recipient
          self.amount = amount
          self.message = message
          self.signature = signature
          self.executed = False
  \<close>
  The attribute \<^verbatim>\<open>amount\<close> of a transaction is the field \<open>t_amount\<close>, to keep
  it apart from the balance of an address.
\<close>

record Transaction =
  sender :: party
  recipient :: party
  t_amount :: int
  message :: "string option"
  signature :: "string option"
  executed :: bool

definition new_Transaction ::
  "party \<Rightarrow> party \<Rightarrow> int \<Rightarrow> string option \<Rightarrow> string option \<Rightarrow> Transaction" where
  "new_Transaction sndr rcpt amt sig msg =
     \<lparr>sender = sndr, recipient = rcpt, t_amount = amt, message = msg, signature = sig,
      executed = False\<rparr>"

text \<open>
  An entry of a block's \<^verbatim>\<open>transactions\<close> in the node's own chain: an object, or a
  dict when the chain was taken from a peer.
\<close>

datatype entry = Obj Transaction | Dict tx_dict

text \<open>
  The fields of \<^verbatim>\<open>Blockchain\<close>. The field \<^verbatim>\<open>chain\<close> is \<open>the_chain\<close>
  here, since \<open>chain\<close> names a constant of HOL. \<open>nodes\<close> is a Python set; the
  list gives its elements in the order in which a \<^verbatim>\<open>for\<close> loop visits them.
\<close>

record Blockchain =
  current_transactions :: "Transaction list"
  addresses :: "Address list"
  the_chain :: "entry block list"
  nodes :: "string list"

text \<open>What a call does: it returns a value or raises, and leaves a state behind.\<close>

datatype 'a outcome = Returns 'a | Raises error

subsection \<open>\<^verbatim>\<open>Blockchain.hash\<close> on a block of a chain\<close>

text \<open>
  \<^verbatim>\<open>json.dumps\<close> cannot print a \<^verbatim>\<open>Transaction\<close> object: \<^verbatim>\<open>self.hash\<close> of
  a block that holds one raises \<^verbatim>\<open>TypeError\<close>. On a block whose transactions are
  dicts it is the hash of that dict.
\<close>

fun the_dicts :: "entry list \<Rightarrow> error + tx_dict list" where
  "the_dicts [] = Inr []"
| "the_dicts (Obj t # es) = Inl TypeError"
| "the_dicts (Dict d # es) = (case the_dicts es of Inl e \<Rightarrow> Inl e | Inr ds \<Rightarrow> Inr (d # ds))"

definition hash_of_entry_block :: "ext \<Rightarrow> entry block \<Rightarrow> error + string" where
  "hash_of_entry_block X b =
     (case the_dicts (transactions b) of
        Inl e \<Rightarrow> Inl e
      | Inr ds \<Rightarrow> Inr (hash X (block_json
          \<lparr>index = index b, timestamp = timestamp b, transactions = ds,
           blk_proof = blk_proof b, previous_hash = previous_hash b, b_extra = b_extra b\<rparr>)))"

text \<open>A block as it came through JSON, seen as a block of a chain.\<close>

definition as_entries :: "tx_dict block \<Rightarrow> entry block" where
  "as_entries b =
     \<lparr>index = index b, timestamp = timestamp b, transactions = map Dict (transactions b),
      blk_proof = blk_proof b, previous_hash = previous_hash b, b_extra = b_extra b\<rparr>"

subsection \<open>\<^verbatim>\<open>Blockchain.valid_chain\<close>\<close>

text \<open>
  \<^verbatim>\<open>
  def valid_chain(self, chain):
      last_block = chain[0]
      current_index = 1
      while current_index < len(chain):
          block = chain[current_index]
          if block['previous_hash'] != self.hash(last_block):
              return False
          if not self.valid_proof(last_block['proof'], block['proof']):
              return False
          if block['timestamp'] < last_block['timestamp']:
              return False
          last_block = block
          current_index += 1
      return True
  \<close>
  The loop variables are \<open>last_block\<close> and \<open>current_index\<close>; the three
  \<^verbatim>\<open>print\<close> calls of the body are left out. The argument is any list of blocks:
  the chain a peer sent, which is the one call in the code, or the node's own chain. The
  first test calls \<^verbatim>\<open>self.hash\<close>, which may raise.
\<close>

function valid_chain_loop ::
  "ext \<Rightarrow> entry block list \<Rightarrow> entry block \<Rightarrow> nat \<Rightarrow> error + bool" where
  "valid_chain_loop X chain last_block current_index =
     (if current_index < length chain then
        (case hash_of_entry_block X last_block of
           Inl e \<Rightarrow> Inl e
         | Inr h \<Rightarrow>
            if previous_hash (chain ! current_index) \<noteq> HStr h then Inr False
            else if \<not> valid_proof X (blk_proof last_block) (blk_proof (chain ! current_index))
              then Inr False
            else if num_lt (timestamp (chain ! current_index)) (timestamp last_block)
              then Inr False
            else valid_chain_loop X chain (chain ! current_index) (current_index + 1))
      else Inr True)"
  by pat_completeness auto
termination
  by (relation "measure (\<lambda>(X, chain, last_block, current_index). length chain - current_index)")
    auto

declare valid_chain_loop.simps [simp del]

definition valid_chain :: "ext \<Rightarrow> entry block list \<Rightarrow> error + bool" where
  "valid_chain X chain =
     (if chain = [] then Inl IndexError
      else let last_block = chain ! 0; current_index = 1
           in valid_chain_loop X chain last_block current_index)"

text \<open>
  The three tests that the body of the loop makes on a block and the one before it, for
  two blocks that came through JSON.
\<close>

definition linked :: "ext \<Rightarrow> tx_dict block \<Rightarrow> tx_dict block \<Rightarrow> bool" where
  "linked X previous current \<longleftrightarrow>
     previous_hash current = HStr (hash X (block_json previous)) \<and>
     valid_proof X (blk_proof previous) (blk_proof current) \<and>
     \<not> num_lt (timestamp current) (timestamp previous)"

text \<open>A block of a chain all of whose transactions are dicts.\<close>

definition is_dict :: "entry \<Rightarrow> bool" where
  "is_dict t = (case t of Dict d \<Rightarrow> True | Obj tr \<Rightarrow> False)"

definition json_block :: "entry block \<Rightarrow> bool" where
  "json_block b = list_all is_dict (transactions b)"

subsection \<open>Python's \<^verbatim>\<open>str.split()\<close> and \<^verbatim>\<open>int(str)\<close>\<close>

text \<open>
  \<^verbatim>\<open>s.split()\<close> cuts a string at runs of whitespace and returns the words between
  them, none of them empty. \<^verbatim>\<open>int(w)\<close> reads an optional sign and decimal digits,
  which single underscores may separate, and raises \<^verbatim>\<open>ValueError\<close> on anything else.
  Below the code point 256 the whitespace characters are the space, 9 to 13, 28 to 31,
  133 and 160, and the decimal digits are the ASCII ones.
\<close>

definition is_space :: "char \<Rightarrow> bool" where
  "is_space c = (c = CHR '' '' \<or> (9 \<le> (of_char c :: nat) \<and> (of_char c :: nat) \<le> 13)
                 \<or> (28 \<le> (of_char c :: nat) \<and> (of_char c :: nat) \<le> 31)
                 \<or> (of_char c :: nat) = 133 \<or> (of_char c :: nat) = 160)"

fun split_from :: "string \<Rightarrow> string \<Rightarrow> string list" where
  "split_from w [] = (if w = [] then [] else [w])"
| "split_from w (c # cs) =
     (if is_space c then (if w = [] then split_from [] cs else w # split_from [] cs)
      else split_from (w @ [c]) cs)"

definition py_split :: "string \<Rightarrow> string list" where
  "py_split s = split_from [] s"

definition is_digit :: "char \<Rightarrow> bool" where
  "is_digit c = (48 \<le> (of_char c :: nat) \<and> (of_char c :: nat) \<le> 57)"

definition digit_val :: "char \<Rightarrow> nat" where
  "digit_val c = of_char c - 48"

fun read_digits :: "nat \<Rightarrow> string \<Rightarrow> nat option" where
  "read_digits acc [] = Some acc"
| "read_digits acc [c] = (if is_digit c then Some (10 * acc + digit_val c) else None)"
| "read_digits acc (c # d # cs) =
     (if is_digit c then read_digits (10 * acc + digit_val c) (d # cs)
      else if c = CHR ''_'' \<and> is_digit d then read_digits (10 * acc + digit_val d) cs
      else None)"

definition read_nat :: "string \<Rightarrow> nat option" where
  "read_nat w = (case w of [] \<Rightarrow> None
                 | c # cs \<Rightarrow> if is_digit c then read_digits (digit_val c) cs else None)"

definition py_int :: "string \<Rightarrow> error + int" where
  "py_int w =
     (case w of
        [] \<Rightarrow> Inl ValueError
      | c # cs \<Rightarrow>
          if c = CHR ''-'' then (case read_nat cs of None \<Rightarrow> Inl ValueError | Some n \<Rightarrow> Inr (- int n))
          else if c = CHR ''+'' then (case read_nat cs of None \<Rightarrow> Inl ValueError | Some n \<Rightarrow> Inr (int n))
          else (case read_nat w of None \<Rightarrow> Inl ValueError | Some n \<Rightarrow> Inr (int n)))"

text \<open>
  \<^verbatim>\<open>a, b = map(int, s.split())\<close>: the unpacking raises \<^verbatim>\<open>ValueError\<close> unless
  there are exactly two words, as \<^verbatim>\<open>int\<close> does on a word that is no number.
\<close>

definition two_ints :: "string \<Rightarrow> error + int \<times> int" where
  "two_ints s =
     (case py_split s of
        [a, b] \<Rightarrow> (case py_int a of Inl e \<Rightarrow> Inl e
                    | Inr x \<Rightarrow> (case py_int b of Inl e \<Rightarrow> Inl e | Inr y \<Rightarrow> Inr (x, y)))
      | _ \<Rightarrow> Inl ValueError)"

subsection \<open>\<^verbatim>\<open>get_address\<close> and \<^verbatim>\<open>getOrCreateAddress\<close>\<close>

text \<open>
  \<^verbatim>\<open>
  def get_address(self, address):
      if address == '0':
          return address, None
      list_of_addresses = [ad.address for ad in self.addresses]
      for index, address_ in enumerate(list_of_addresses):
          if address == address_:
              return self.addresses[index], index
      raise AddressNotFound()
  \<close>
\<close>

fun enumerate_find :: "string \<Rightarrow> nat \<Rightarrow> string list \<Rightarrow> nat option" where
  "enumerate_find a i [] = None"
| "enumerate_find a i (address' # rest) =
     (if a = address' then Some i else enumerate_find a (Suc i) rest)"

definition get_address :: "Blockchain \<Rightarrow> string \<Rightarrow> error + party" where
  "get_address s a =
     (if a = ''0'' then Inr Sentinel
      else let list_of_addresses = map address (addresses s)
           in case enumerate_find a 0 list_of_addresses of
                Some i \<Rightarrow> Inr (Ref i)
              | None \<Rightarrow> Inl AddressNotFound)"

text \<open>
  \<^verbatim>\<open>
  def getOrCreateAddress(self, address):
      try:
          return self.get_address(address)
      except AddressNotFound:
          address = Address(address)
          self.addresses.append(address)
          index = len(self.addresses) - 1
          return address, index
  \<close>
\<close>

definition getOrCreateAddress :: "Blockchain \<Rightarrow> string \<Rightarrow> party \<times> Blockchain" where
  "getOrCreateAddress s a =
     (case get_address s a of
        Inr p \<Rightarrow> (p, s)
      | Inl e \<Rightarrow>
          let s' = s\<lparr>addresses := addresses s @ [\<lparr>address = a, amount = 0\<rparr>]\<rparr>;
              i = length (addresses s') - 1
          in (Ref i, s'))"

subsection \<open>\<^verbatim>\<open>getTransactionsByAddress\<close>\<close>

text \<open>
  \<^verbatim>\<open>
  def getTransactionsByAddress(self, address):
      try:
          address, addressIndex = self.get_address(address)
      except AddressNotFound:
          if not isinstance(address, Address):
              return None, None
      transactions = []
      for block in self.chain:
          for t in block['transactions']:
              try:
                  if address in (t.sender, t.recipient):
                      transactions.append(t)
              except:
                  if address in (t['sender'], t['recipient']):
                      transactions.append(t)
      future_transactions = []
      for t in self.current_transactions:
          if address in (t.sender, t.recipient):
              future_transactions.append(t)
      return transactions, future_transactions
  \<close>
  The argument is a string (the HTTP route passes one) or an \<^verbatim>\<open>Address\<close> object
  (\<^verbatim>\<open>new_transaction\<close> passes the sender it resolved). An object is equal to no
  string, so \<^verbatim>\<open>get_address\<close> raises for it and the search goes on with the object
  itself. The result is always a pair.
\<close>

datatype lookup = Name string | Object nat

definition involves :: "party \<Rightarrow> entry \<Rightarrow> bool" where
  "involves p t =
     (case t of
        Obj tr \<Rightarrow> p = sender tr \<or> p = recipient tr
      | Dict d \<Rightarrow> (case p of Sentinel \<Rightarrow> ''0'' = d_sender d \<or> ''0'' = d_recipient d
                   | Ref i \<Rightarrow> False))"

definition getTransactionsByAddress ::
  "Blockchain \<Rightarrow> lookup \<Rightarrow> entry list option \<times> Transaction list option" where
  "getTransactionsByAddress s a =
     (case (case a of Name n \<Rightarrow> (case get_address s n of Inr p \<Rightarrow> Some p | Inl e \<Rightarrow> None)
                    | Object i \<Rightarrow> Some (Ref i)) of
        None \<Rightarrow> (None, None)
      | Some p \<Rightarrow>
          let transactions' = filter (involves p) (concat (map transactions (the_chain s)));
              future_transactions =
                filter (\<lambda>t. p = sender t \<or> p = recipient t) (current_transactions s)
          in (Some transactions', Some future_transactions))"

subsection \<open>\<^verbatim>\<open>Transaction.is_valid\<close> and \<^verbatim>\<open>Transaction.is_signature_valid\<close>\<close>

text \<open>
  \<^verbatim>\<open>
  def is_valid(self):
      if (self.sender != '0' and self.sender.amount < self.amount) or (self.amount == 0):
          return False
      else:
          return True
  \<close>
\<close>

definition is_valid :: "Blockchain \<Rightarrow> Transaction \<Rightarrow> bool" where
  "is_valid s t =
     (if (case sender t of Sentinel \<Rightarrow> False | Ref i \<Rightarrow> amount (addresses s ! i) < t_amount t)
         \<or> t_amount t = 0
      then False else True)"

text \<open>
  \<^verbatim>\<open>
  def is_signature_valid(self, transactions):
      if self.sender == '0':
          return True
      else:
          sigR, sigS = map(int, self.signature.split())
          senderX, senderY = map(int, self.sender.address.split())
          sender_transactions = len(transactions)
          msg_signed = f'{self.sender.address} {self.recipient.address} {self.message} {self.amount} {sender_transactions}'
          return ecdsa.verify((sigR, sigS), msg_signed, (senderX, senderY))
  \<close>
  The caller passes what \<^verbatim>\<open>getTransactionsByAddress\<close> returned, which is a pair, and
  \<^verbatim>\<open>len\<close> of a pair is 2. A signature that is \<^verbatim>\<open>None\<close> has no \<^verbatim>\<open>split\<close>,
  and a recipient that is the string \<^verbatim>\<open>'0'\<close> has no \<^verbatim>\<open>address\<close>: both raise
  \<^verbatim>\<open>AttributeError\<close>. A message that is \<^verbatim>\<open>None\<close> prints as \<^verbatim>\<open>None\<close>.
\<close>

definition len_pair :: "'a \<times> 'b \<Rightarrow> nat" where
  "len_pair p = 2"

definition str_opt :: "string option \<Rightarrow> string" where
  "str_opt m = (case m of None \<Rightarrow> ''None'' | Some t \<Rightarrow> t)"

definition msg_signed :: "string \<Rightarrow> string \<Rightarrow> string option \<Rightarrow> int \<Rightarrow> nat \<Rightarrow> string" where
  "msg_signed sender_address recipient_address msg amt sender_transactions =
     sender_address @ '' '' @ recipient_address @ '' '' @ str_opt msg @ '' '' @ str_int amt
       @ '' '' @ str_nat sender_transactions"

definition is_signature_valid ::
  "ext \<Rightarrow> Blockchain \<Rightarrow> Transaction \<Rightarrow> entry list option \<times> Transaction list option
     \<Rightarrow> error + bool" where
  "is_signature_valid X s t transactions' =
     (case sender t of
        Sentinel \<Rightarrow> Inr True
      | Ref i \<Rightarrow>
         (case signature t of
            None \<Rightarrow> Inl AttributeError
          | Some sg \<Rightarrow>
             (case two_ints sg of
                Inl e \<Rightarrow> Inl e
              | Inr (sigR, sigS) \<Rightarrow>
                 (case two_ints (address (addresses s ! i)) of
                    Inl e \<Rightarrow> Inl e
                  | Inr (senderX, senderY) \<Rightarrow>
                     (let sender_transactions = len_pair transactions'
                      in case recipient t of
                           Sentinel \<Rightarrow> Inl AttributeError
                         | Ref j \<Rightarrow>
                             ecdsa_verify X (sigR, sigS)
                               (msg_signed (address (addresses s ! i)) (address (addresses s ! j))
                                  (message t) (t_amount t) sender_transactions)
                               (senderX, senderY))))))"

subsection \<open>\<^verbatim>\<open>execute_transaction\<close>\<close>

text \<open>
  \<^verbatim>\<open>
  def execute_transaction(self, transaction):
      if transaction.sender != '0':
          self.addresses[transaction.senderIndex].amount -= transaction.amount
      self.addresses[transaction.recipientIndex].amount += transaction.amount
      transaction.executed = True
  \<close>
  An index past the end of the list raises \<^verbatim>\<open>IndexError\<close>, and the index
  \<^verbatim>\<open>None\<close> of the recipient \<^verbatim>\<open>'0'\<close> raises \<^verbatim>\<open>TypeError\<close>, after the sender
  has been debited.
\<close>

definition add_amount :: "Address list \<Rightarrow> nat \<Rightarrow> int \<Rightarrow> error + Address list" where
  "add_amount ads i d =
     (if i < length ads then Inr (ads[i := (ads ! i)\<lparr>amount := amount (ads ! i) + d\<rparr>])
      else Inl IndexError)"

definition execute_transaction ::
  "Blockchain \<Rightarrow> Transaction \<Rightarrow> (Transaction outcome) \<times> Blockchain" where
  "execute_transaction s t =
     (case (case sender t of
              Sentinel \<Rightarrow> Inr (addresses s)
            | Ref i \<Rightarrow> add_amount (addresses s) i (- t_amount t)) of
        Inl e \<Rightarrow> (Raises e, s)
      | Inr ads1 \<Rightarrow>
         (case recipient t of
            Sentinel \<Rightarrow> (Raises TypeError, s\<lparr>addresses := ads1\<rparr>)
          | Ref j \<Rightarrow>
             (case add_amount ads1 j (t_amount t) of
                Inl e \<Rightarrow> (Raises e, s\<lparr>addresses := ads1\<rparr>)
              | Inr ads2 \<Rightarrow> (Returns (t\<lparr>executed := True\<rparr>), s\<lparr>addresses := ads2\<rparr>))))"

subsection \<open>\<^verbatim>\<open>new_transaction\<close>\<close>

text \<open>
  \<^verbatim>\<open>
  def new_transaction(self, sender, recipient, amount, signature=None, message=None):
      try:
          sender, senderIndex = self.get_address(sender)
      except AddressNotFound:
          return None
      recipient, recipientIndex = self.getOrCreateAddress(recipient)
      transaction = Transaction((sender, senderIndex), (recipient, recipientIndex),
                                amount, signature, message)
      sender_transactions = self.getTransactionsByAddress(sender)
      if not (transaction.is_valid() and transaction.is_signature_valid(sender_transactions)):
          return None  # stop execution if transactions is not valid
      self.execute_transaction(transaction)
      self.current_transactions.append(transaction)
      if len(self.chain) == 0:
          return 0
      else:
          return self.last_block['index'] + 1
  \<close>
  The result is \<open>Returns None\<close> for Python's \<^verbatim>\<open>None\<close> and \<open>Returns (Some i)\<close>
  for the integer \<open>i\<close>. \<^verbatim>\<open>and\<close> evaluates its right operand only when the left one
  is true.
\<close>

definition as_lookup :: "party \<Rightarrow> lookup" where
  "as_lookup p = (case p of Sentinel \<Rightarrow> Name ''0'' | Ref i \<Rightarrow> Object i)"

definition new_transaction ::
  "ext \<Rightarrow> Blockchain \<Rightarrow> string \<Rightarrow> string \<Rightarrow> int \<Rightarrow> string option \<Rightarrow> string option
     \<Rightarrow> (int option) outcome \<times> Blockchain" where
  "new_transaction X s sender_id recipient_id amt sig msg =
     (case get_address s sender_id of
        Inl e \<Rightarrow> (Returns None, s)
      | Inr sndr \<Rightarrow>
         (let (rcpt, s1) = getOrCreateAddress s recipient_id;
              transaction = new_Transaction sndr rcpt amt sig msg;
              sender_transactions = getTransactionsByAddress s1 (as_lookup sndr)
          in if \<not> is_valid s1 transaction then (Returns None, s1)
             else case is_signature_valid X s1 transaction sender_transactions of
                    Inl e \<Rightarrow> (Raises e, s1)
                  | Inr False \<Rightarrow> (Returns None, s1)
                  | Inr True \<Rightarrow>
                     (case execute_transaction s1 transaction of
                        (Raises e, s2) \<Rightarrow> (Raises e, s2)
                      | (Returns transaction', s2) \<Rightarrow>
                         (let s3 = s2\<lparr>current_transactions :=
                                        current_transactions s2 @ [transaction']\<rparr>
                          in if length (the_chain s3) = 0 then (Returns (Some 0), s3)
                             else (Returns (Some (index (last (the_chain s3)) + 1)), s3)))))"

text \<open>
  \<^verbatim>\<open>
  def get_balance(self, address):
      try:
          address, addressIndex = self.get_address(address)
      except AddressNotFound:
          return None, None
      return address.amount
  \<close>
  The string \<^verbatim>\<open>'0'\<close> resolves to itself and has no \<^verbatim>\<open>amount\<close>.
\<close>

datatype balance = Amount int | NotFound

definition get_balance :: "Blockchain \<Rightarrow> string \<Rightarrow> balance outcome" where
  "get_balance s a =
     (case get_address s a of
        Inl e \<Rightarrow> Returns NotFound
      | Inr Sentinel \<Rightarrow> Raises AttributeError
      | Inr (Ref i) \<Rightarrow> Returns (Amount (amount (addresses s ! i))))"

subsection \<open>\<^verbatim>\<open>resolve_conflicts\<close>\<close>

text \<open>
  \<^verbatim>\<open>
  def resolve_conflicts(self):
      neighbours = self.nodes
      new_chain = None
      invalid_chains = []
      if len(neighbours) == 0:
          return False, invalid_chains
      max_length = len(self.chain)
      for node in neighbours:
          response = requests.get(f'http://{node}/chain')
          if response.status_code == 200:
              length = response.json()['length']
              chain = response.json()['chain']
              if length > max_length and self.valid_chain(chain):
                  max_length = length
                  new_chain = chain
              elif not (length < max_length and self.valid_chain(chain)):
                  invalid_chains.append(node)
          if new_chain:
              self.chain = new_chain
              return True, invalid_chains
          return False, invalid_chains
  \<close>
  The two \<^verbatim>\<open>return\<close> statements at the end stand inside the body of the
  \<^verbatim>\<open>for\<close> loop, at the depth of \<^verbatim>\<open>response = ...\<close>. Every path through the
  body therefore ends in a \<^verbatim>\<open>return\<close>, and the loop runs its body once, for the
  first node that the iteration yields.

  What the peers answer is a parameter, a function from a node to its response. A request
  that fails on the network is not modelled.
\<close>

record response =
  status_code :: int
  r_length :: int
  r_chain :: "tx_dict block list"

text \<open>
  The body of the \<^verbatim>\<open>if response.status_code == 200\<close> statement: the new values of
  \<open>max_length\<close>, \<open>new_chain\<close> and \<open>invalid_chains\<close>, or the exception that
  \<^verbatim>\<open>valid_chain\<close> raised. \<^verbatim>\<open>and\<close> calls \<^verbatim>\<open>valid_chain\<close> only when the comparison
  before it holds.
\<close>

definition examine ::
  "ext \<Rightarrow> string \<Rightarrow> response \<Rightarrow> int \<times> tx_dict block list option \<times> string list
     \<Rightarrow> error + int \<times> tx_dict block list option \<times> string list" where
  "examine X node r vars =
     (case vars of (max_length, new_chain, invalid_chains) \<Rightarrow>
        (case (if r_length r > max_length then valid_chain X (map as_entries (r_chain r))
               else Inr False) of
           Inl e \<Rightarrow> Inl e
         | Inr True \<Rightarrow> Inr (r_length r, Some (r_chain r), invalid_chains)
         | Inr False \<Rightarrow>
            (case (if r_length r < max_length then valid_chain X (map as_entries (r_chain r))
                   else Inr False) of
               Inl e \<Rightarrow> Inl e
             | Inr True \<Rightarrow> Inr (max_length, new_chain, invalid_chains)
             | Inr False \<Rightarrow> Inr (max_length, new_chain, invalid_chains @ [node]))))"

definition resolve_conflicts ::
  "ext \<Rightarrow> (string \<Rightarrow> response) \<Rightarrow> Blockchain \<Rightarrow> (bool \<times> string list) outcome \<times> Blockchain" where
  "resolve_conflicts X net s =
     (let neighbours = nodes s; new_chain = None; invalid_chains = []
      in if length neighbours = 0 then (Returns (False, invalid_chains), s)
         else let max_length = int (length (the_chain s));
                  node = hd neighbours;
                  response = net node
              in case (if status_code response = 200
                       then examine X node response (max_length, new_chain, invalid_chains)
                       else Inr (max_length, new_chain, invalid_chains)) of
                   Inl e \<Rightarrow> (Raises e, s)
                 | Inr (max_length', new_chain', invalid_chains') \<Rightarrow>
                    (case new_chain' of
                       Some (b # bs) \<Rightarrow>
                         (Returns (True, invalid_chains'), s\<lparr>the_chain := map as_entries (b # bs)\<rparr>)
                     | _ \<Rightarrow> (Returns (False, invalid_chains'), s)))"

subsection \<open>\<^verbatim>\<open>new_block\<close>\<close>

text \<open>
  \<^verbatim>\<open>
  def new_block(self, proof, previous_hash=None):
      if len(self.chain) != 0:
          index = len(self.chain)
      else:
          index = 0
      block = {
          'index': index,
          'timestamp': time(),
          'transactions': self.current_transactions,
          'proof': proof,
          'previous_hash': previous_hash or self.hash(self.chain[-1])
      }
      self.current_transactions = []
      self.chain.append(block)
      self.update_chainFile()
      return block
  \<close>
  The clock is a parameter: \<open>now\<close> is the finite float that \<^verbatim>\<open>time()\<close> returns.
  \<^verbatim>\<open>or\<close> takes its right operand when the left one is \<^verbatim>\<open>None\<close>, 0 or the empty
  string.
\<close>

definition truthy :: "phash option \<Rightarrow> bool" where
  "truthy h = (case h of None \<Rightarrow> False | Some (HInt i) \<Rightarrow> i \<noteq> 0 | Some (HStr d) \<Rightarrow> d \<noteq> [])"

text \<open>
  \<^verbatim>\<open>update_chainFile\<close> turns every transaction of the chain into a dict before it
  opens the file:
  \<^verbatim>\<open>
  def transactions_to_jsonSerializable(transactions_):
      transactions = []
      for transaction_ in transactions_:
          transaction = {}
          if transaction_.sender == '0':
              transaction['sender'] = transaction_.sender
          else:
              transaction['sender'] = transaction_.sender.address
          transaction['recipient'] = transaction_.recipient.address
          ...
  \<close>
  An entry that is a dict already has no attribute \<^verbatim>\<open>sender\<close>, and a recipient that
  is the string \<^verbatim>\<open>'0'\<close> has no \<^verbatim>\<open>address\<close>: both raise \<^verbatim>\<open>AttributeError\<close>.
  Only whether the call raises is modelled, not the file it writes.
\<close>

definition serializable :: "entry \<Rightarrow> bool" where
  "serializable t = (case t of Dict d \<Rightarrow> False | Obj tr \<Rightarrow> recipient tr \<noteq> Sentinel)"

definition update_chainFile :: "Blockchain \<Rightarrow> unit outcome" where
  "update_chainFile s =
     (if \<forall>b \<in> set (the_chain s). \<forall>t \<in> set (transactions b). serializable t
      then Returns () else Raises AttributeError)"

definition new_block ::
  "ext \<Rightarrow> rat \<Rightarrow> Blockchain \<Rightarrow> int \<Rightarrow> phash option \<Rightarrow> (entry block) outcome \<times> Blockchain" where
  "new_block X now s prf prev =
     (let index' = (if length (the_chain s) \<noteq> 0 then int (length (the_chain s)) else 0)
      in case (if truthy prev then Inr (the prev)
               else if the_chain s = [] then Inl IndexError
               else (case hash_of_entry_block X (last (the_chain s)) of
                       Inl e \<Rightarrow> Inl e | Inr d \<Rightarrow> Inr (HStr d))) of
           Inl e \<Rightarrow> (Raises e, s)
         | Inr ph \<Rightarrow>
            (let block = \<lparr>index = index', timestamp = NFloat (Finite now),
                          transactions = map Obj (current_transactions s),
                          blk_proof = prf, previous_hash = ph, b_extra = []\<rparr>;
                 s' = s\<lparr>current_transactions := [], the_chain := the_chain s @ [block]\<rparr>
             in case update_chainFile s' of
                  Raises e \<Rightarrow> (Raises e, s')
                | Returns u \<Rightarrow> (Returns block, s')))"

subsection \<open>Sequences of calls\<close>

text \<open>
  The arguments of one call of \<open>new_transaction\<close>, and a node that answers a list of
  such calls one after the other. A call that raises leaves the state it had reached, and
  the next call starts from there. The run keeps what each call answered.
\<close>

record call =
  c_sender :: string
  c_recipient :: string
  c_amount :: int
  c_signature :: "string option"
  c_message :: "string option"

definition submit :: "ext \<Rightarrow> Blockchain \<Rightarrow> call \<Rightarrow> (int option) outcome \<times> Blockchain" where
  "submit X s c =
     new_transaction X s (c_sender c) (c_recipient c) (c_amount c) (c_signature c) (c_message c)"

fun run ::
  "ext \<Rightarrow> Blockchain \<Rightarrow> call list \<Rightarrow> (call \<times> (int option) outcome) list \<times> Blockchain" where
  "run X s [] = ([], s)"
| "run X s (c # cs) =
     (case submit X s c of (r, s') \<Rightarrow>
        (case run X s' cs of (rs, s'') \<Rightarrow> ((c, r) # rs, s'')))"

text \<open>A call is admitted when it returns an index: not \<^verbatim>\<open>None\<close>, and no exception.\<close>

definition is_admitted :: "(int option) outcome \<Rightarrow> bool" where
  "is_admitted r = (case r of Returns (Some i) \<Rightarrow> True | _ \<Rightarrow> False)"

definition admitted :: "(call \<times> (int option) outcome) list \<Rightarrow> call list" where
  "admitted rs = map fst (filter (\<lambda>cr. is_admitted (snd cr)) rs)"

definition received :: "string \<Rightarrow> call list \<Rightarrow> int" where
  "received a cs = sum_list (map c_amount (filter (\<lambda>c. c_recipient c = a) cs))"

definition sent :: "string \<Rightarrow> call list \<Rightarrow> int" where
  "sent a cs = sum_list (map c_amount (filter (\<lambda>c. c_sender c = a) cs))"

text \<open>The two operations by which a node extends its own state.\<close>

datatype op = Submit call | Forge rat int "phash option"

fun perform :: "ext \<Rightarrow> Blockchain \<Rightarrow> op list \<Rightarrow> Blockchain" where
  "perform X s [] = s"
| "perform X s (Submit c # ops) = perform X (snd (submit X s c)) ops"
| "perform X s (Forge now prf prev # ops) = perform X (snd (new_block X now s prf prev)) ops"

subsection \<open>The ledger after a transfer\<close>

text \<open>
  The address list after \<open>execute_transaction\<close> has debited the sender, unless it is
  the sentinel, and credited the recipient at index \<open>j\<close>.
\<close>

definition moved :: "Address list \<Rightarrow> party \<Rightarrow> nat \<Rightarrow> int \<Rightarrow> Address list" where
  "moved ads p j amt =
     (let ads1 = (case p of Sentinel \<Rightarrow> ads
                  | Ref i \<Rightarrow> ads[i := (ads ! i)\<lparr>amount := amount (ads ! i) + (- amt)\<rparr>])
      in ads1[j := (ads1 ! j)\<lparr>amount := amount (ads1 ! j) + amt\<rparr>])"

text \<open>
  The invariant of the ledger with respect to the calls admitted so far: no two addresses
  share a name and none is named \<^verbatim>\<open>0\<close>, every admitted call is between known names,
  and every balance is what the address received less what it sent.
\<close>

definition balanced :: "Blockchain \<Rightarrow> call list \<Rightarrow> bool" where
  "balanced s adm \<longleftrightarrow>
     distinct (map address (addresses s)) \<and> ''0'' \<notin> address ` set (addresses s) \<and>
     (\<forall>c \<in> set adm. c_recipient c \<in> address ` set (addresses s) \<and>
        (c_sender c = ''0'' \<or> c_sender c \<in> address ` set (addresses s))) \<and>
     (\<forall>k < length (addresses s).
        amount (addresses s ! k) =
          received (address (addresses s ! k)) adm - sent (address (addresses s ! k)) adm)"

subsection \<open>Block indices\<close>

text \<open>Every block of the chain carries its position in the chain as its index.\<close>

definition index_is_position :: "'t block list \<Rightarrow> bool" where
  "index_is_position chain \<longleftrightarrow> (\<forall>k < length chain. index (chain ! k) = int k)"

subsection \<open>Concrete inputs\<close>

text \<open>
  Inputs on which the theorems below are run. \<open>demo_ext\<close> gives the library
  parameters small bodies that are not those of the libraries: a digest that starts with
  four zeros for the one guess \<^verbatim>\<open>1002\<close>, and a signature check that accepts one
  message. It serves where a theorem that holds for all library functions is run on one
  choice of them. \<open>sample_ext\<close> further down carries values of the real functions.
\<close>

definition demo_ext :: ext where
  "demo_ext =
     \<lparr>sha256_hexdigest = (\<lambda>s. if s = ''1002'' then ''0000c3af'' else ''9f86d081''),
      ecdsa_verify = (\<lambda>sg m q. Inr (m = ''1 2 B None 1 2'')),
      float_repr = (\<lambda>r. ''0.0''),
      encode_basestring = (\<lambda>s. CHR 0x22 # s @ [CHR 0x22])\<rparr>"

definition genesis_block :: "tx_dict block" where
  "genesis_block =
     \<lparr>index = 0, timestamp = NFloat (Finite 0), transactions =
        [\<lparr>d_sender = ''0'', d_recipient = ''1 2'', d_amount = 1, d_message = None,
          d_signature = None, d_extra = []\<rparr>],
      blk_proof = 100, previous_hash = HInt 1, b_extra = []\<rparr>"

definition second_block :: "tx_dict block" where
  "second_block =
     \<lparr>index = 1, timestamp = NFloat (Finite 0), transactions = [], blk_proof = 2,
      previous_hash = HStr ''9f86d081'', b_extra = []\<rparr>"

text \<open>The genesis block as a dict whose keys were inserted in another order, at both depths.\<close>

definition genesis_reordered :: json where
  "genesis_reordered = JDict
     [(''transactions'', JList [JDict
         [(''signature'', JNull), (''amount'', JInt 1), (''sender'', JStr ''0''),
          (''message'', JNull), (''recipient'', JStr ''1 2'')]]),
      (''previous_hash'', JInt 1),
      (''proof'', JInt 100),
      (''index'', JInt 0),
      (''timestamp'', JFloat (Finite 0))]"

text \<open>A node on which nothing has happened yet.\<close>

definition empty_node :: Blockchain where
  "empty_node = \<lparr>current_transactions = [], addresses = [], the_chain = [], nodes = []\<rparr>"

text \<open>
  The node after \<^verbatim>\<open>new_transaction('0', '1 2', 5)\<close>: the address \<^verbatim>\<open>1 2\<close> holds 5
  and the minting transaction waits in the pool.
\<close>

definition coinbase :: Transaction where
  "coinbase = \<lparr>sender = Sentinel, recipient = Ref 0, t_amount = 5, message = None,
      signature = None, executed = True\<rparr>"

definition funded :: Blockchain where
  "funded = \<lparr>current_transactions = [coinbase],
      addresses = [\<lparr>address = ''1 2'', amount = 5\<rparr>], the_chain = [], nodes = []\<rparr>"

text \<open>
  A node that holds the genesis block and knows two peers. Peer \<^verbatim>\<open>a\<close> answers with
  the same chain, peer \<^verbatim>\<open>b\<close> with a longer one.
\<close>

definition two_peers :: Blockchain where
  "two_peers = \<lparr>current_transactions = [], addresses = [],
      the_chain = [as_entries genesis_block], nodes = [''a'', ''b'']\<rparr>"

definition two_peers_net :: "string \<Rightarrow> response" where
  "two_peers_net node =
     (if node = ''a'' then \<lparr>status_code = 200, r_length = 1, r_chain = [genesis_block]\<rparr>
      else \<lparr>status_code = 200, r_length = 2, r_chain = [genesis_block, second_block]\<rparr>)"

text \<open>
  Library functions given by their values at the arguments that the inputs below reach.
  The two digests are those of SHA-256: of the text that \<^verbatim>\<open>json.dumps\<close> prints for
  the block \<open>peer_genesis\<close>, and of the guess \<^verbatim>\<open>10035293\<close>. The float
  1541000000.5 prints as itself, and a string without quotes, backslashes and control
  characters prints between two quotes.
\<close>

definition peer_genesis_text :: string where
  "peer_genesis_text =
     ''{'' @ [CHR 0x22] @ ''index'' @ [CHR 0x22] @ '': 0, ''
     @ [CHR 0x22] @ ''previous_hash'' @ [CHR 0x22] @ '': 1, ''
     @ [CHR 0x22] @ ''proof'' @ [CHR 0x22] @ '': 100, ''
     @ [CHR 0x22] @ ''timestamp'' @ [CHR 0x22] @ '': 1541000000.5, ''
     @ [CHR 0x22] @ ''transactions'' @ [CHR 0x22] @ '': []}''"

definition sample_ext :: ext where
  "sample_ext =
     \<lparr>sha256_hexdigest = (\<lambda>s.
        if s = peer_genesis_text
          then ''9e5a897bd15c91cd35c069f28ffcfa947e0de21a729784d43b6fe7b6a7e4ae99''
        else if s = ''10035293''
          then ''0000c415de5ceea33c02daa85a1c218ecca1b1c9e9864ed34d183597844de8e2''
        else ''e3b0c44298fc1c149afbf4c8996fb92427ae41e4649b934ca495991b7852b855''),
      ecdsa_verify = (\<lambda>sg m q. Inr False),
      float_repr = (\<lambda>f. if f = Finite (3082000001 / 2) then ''1541000000.5'' else ''NaN''),
      encode_basestring = (\<lambda>s. CHR 0x22 # s @ [CHR 0x22])\<rparr>"

text \<open>
  A chain of two blocks as a peer may send it. Its first block is stamped 1541000000.5
  and holds no transaction; its second block carries the digest of the first, the proof
  35293 after the proof 100, a later timestamp, and the index 7.
\<close>

definition peer_genesis :: "tx_dict block" where
  "peer_genesis =
     \<lparr>index = 0, timestamp = NFloat (Finite (3082000001 / 2)), transactions = [],
      blk_proof = 100, previous_hash = HInt 1, b_extra = []\<rparr>"

definition peer_second :: "tx_dict block" where
  "peer_second =
     \<lparr>index = 7, timestamp = NFloat (Finite (6164000241 / 4)), transactions = [],
      blk_proof = 35293,
      previous_hash = HStr ''9e5a897bd15c91cd35c069f28ffcfa947e0de21a729784d43b6fe7b6a7e4ae99'',
      b_extra = []\<rparr>"

text \<open>The same second block with the index 1 and the timestamp NaN.\<close>

definition nan_second :: "tx_dict block" where
  "nan_second = peer_second\<lparr>index := 1, timestamp := NFloat NaN\<rparr>"

text \<open>
  A node as \<^verbatim>\<open>__init__\<close> leaves it on an empty chain file, for the public key
  \<^verbatim>\<open>1 2\<close> and the clock 1541000100: one unit minted to the key, and the genesis block
  that holds this transaction. The node knows one peer.
\<close>

definition minted :: Transaction where
  "minted = \<lparr>sender = Sentinel, recipient = Ref 0, t_amount = 1, message = None,
      signature = None, executed = True\<rparr>"

definition own_genesis :: "entry block" where
  "own_genesis =
     \<lparr>index = 0, timestamp = NFloat (Finite 1541000100), transactions = [Obj minted],
      blk_proof = 100, previous_hash = HInt 1, b_extra = []\<rparr>"

definition booted :: Blockchain where
  "booted = \<lparr>current_transactions = [], addresses = [\<lparr>address = ''1 2'', amount = 1\<rparr>],
      the_chain = [own_genesis], nodes = [''a'']\<rparr>"

text \<open>
  The peer answers with its chain of two blocks. \<open>adopted\<close> is the node after it has
  taken that chain, \<open>credited\<close> the node after one more unit has been minted to
  \<^verbatim>\<open>B\<close>, and \<open>forged\<close> the block that \<open>new_block\<close> makes next.
\<close>

definition peer_net :: "string \<Rightarrow> response" where
  "peer_net node = \<lparr>status_code = 200, r_length = 2, r_chain = [peer_genesis, peer_second]\<rparr>"

definition adopted :: Blockchain where
  "adopted = booted\<lparr>the_chain := [as_entries peer_genesis, as_entries peer_second]\<rparr>"

definition minted_to_B :: Transaction where
  "minted_to_B = \<lparr>sender = Sentinel, recipient = Ref 1, t_amount = 1, message = None,
      signature = None, executed = True\<rparr>"

definition credited :: Blockchain where
  "credited = adopted
     \<lparr>current_transactions := [minted_to_B],
      addresses := [\<lparr>address = ''1 2'', amount = 1\<rparr>, \<lparr>address = ''B'', amount = 1\<rparr>]\<rparr>"

definition forged :: "entry block" where
  "forged =
     \<lparr>index = 2, timestamp = NFloat (Finite 1541000200), transactions = [Obj minted_to_B],
      blk_proof = 1, previous_hash = HStr ''00'', b_extra = []\<rparr>"

text \<open>A node whose genesis block came through JSON, and the node after one unit to \<^verbatim>\<open>B\<close>.\<close>

definition one_peer :: Blockchain where
  "one_peer = \<lparr>current_transactions = [], addresses = [],
      the_chain = [as_entries genesis_block], nodes = [''a'']\<rparr>"

definition one_peer_credited :: Blockchain where
  "one_peer_credited = one_peer
     \<lparr>current_transactions :=
        [\<lparr>sender = Sentinel, recipient = Ref 0, t_amount = 1, message = None,
          signature = None, executed = True\<rparr>],
      addresses := [\<lparr>address = ''B'', amount = 1\<rparr>]\<rparr>"

section \<open>Properties\<close>

subsection \<open>Canonical hashing\<close>

lemma sorted_items_keys:
  assumes "distinct (map fst xs)" "distinct (map fst ys)" "fst ` set xs = fst ` set ys"
  shows "map fst (sort_key fst xs) = map fst (sort_key fst ys)"
proof (rule sorted_distinct_set_unique)
  show "sorted (map fst (sort_key fst xs))" by simp
  show "sorted (map fst (sort_key fst ys))" by simp
  show "distinct (map fst (sort_key fst xs))" using assms(1) by (simp add: distinct_map)
  show "distinct (map fst (sort_key fst ys))" using assms(2) by (simp add: distinct_map)
  show "set (map fst (sort_key fst xs)) = set (map fst (sort_key fst ys))"
    using assms(3) by simp
qed

lemma map_items_eq:
  assumes keys: "map fst as = map fst bs"
    and vals: "\<And>a b. a \<in> set as \<Longrightarrow> b \<in> set bs \<Longrightarrow> fst a = fst b \<Longrightarrow> f (snd a) = f (snd b)"
  shows "map (\<lambda>kv. g (fst kv) @ f (snd kv)) as = map (\<lambda>kv. g (fst kv) @ f (snd kv)) bs"
  using assms
proof (induction as arbitrary: bs)
  case Nil
  then show ?case by simp
next
  case (Cons a as)
  then obtain b bs' where bs: "bs = b # bs'" by (cases bs) auto
  with Cons.prems(1) have k: "fst a = fst b" and ks: "map fst as = map fst bs'" by auto
  have "f (snd a) = f (snd b)" using Cons.prems(2) [of a b] k bs by simp
  moreover have "map (\<lambda>kv. g (fst kv) @ f (snd kv)) as = map (\<lambda>kv. g (fst kv) @ f (snd kv)) bs'"
    using ks Cons.prems(2) bs by (intro Cons.IH) auto
  ultimately show ?case using k bs by simp
qed

text \<open>The printed form depends on the field values only: sorting undoes the insertion order.\<close>

lemma dumps_same_value:
  "same_value a b \<Longrightarrow> keys_distinct a \<Longrightarrow> keys_distinct b \<Longrightarrow> dumps X a = dumps X b"
proof (induction a b rule: same_value.induct)
  case (1 xs ys)
  have keys: "map fst (sort_key fst xs) = map fst (sort_key fst ys)"
    using "1.prems" by (intro sorted_items_keys) auto
  have "map (\<lambda>kv. (\<lambda>k. encode_basestring X k @ '': '') (fst kv) @ dumps X (snd kv)) (sort_key fst xs)
      = map (\<lambda>kv. (\<lambda>k. encode_basestring X k @ '': '') (fst kv) @ dumps X (snd kv)) (sort_key fst ys)"
  proof (rule map_items_eq [OF keys])
    fix a b
    assume "a \<in> set (sort_key fst xs)" "b \<in> set (sort_key fst ys)" "fst a = fst b"
    then have ab: "a \<in> set xs" "b \<in> set ys" "fst a = fst b" by simp_all
    with "1.prems" have "same_value (snd a) (snd b)" "keys_distinct (snd a)" "keys_distinct (snd b)"
      by auto
    with ab show "dumps X (snd a) = dumps X (snd b)" by (intro "1.IH")
  qed
  then show ?case by simp
next
  case (2 xs ys)
  from "2.prems" have "list_all2 (\<lambda>x y. dumps X x = dumps X y) xs ys"
    by (auto simp: list_all2_conv_all_nth intro!: "2.IH")
  then have "map (dumps X) xs = map (dumps X) ys"
    by (induction rule: list_all2_induct) auto
  then show ?case by simp
qed auto

text \<open>
  Claim C9. \<open>hash\<close> is a function of the block's field values. It takes the library
  functions and the block and nothing else, so hashing an unchanged block again gives the
  same digest; and two blocks that are equal as key-value maps, each a dict with every key
  held once, have the same digest whatever the order in which their keys were inserted,
  in the block itself and in the dicts inside it.
\<close>

theorem hash_ignores_key_order:
  assumes "keys_distinct block" and "keys_distinct block'" and "same_value block block'"
  shows "hash X block = hash X block'"
  using assms by (simp add: hash_def dumps_same_value)

theorem hash_ignores_key_order_witness:
  "keys_distinct (block_json genesis_block) \<and> keys_distinct genesis_reordered \<and>
   same_value (block_json genesis_block) genesis_reordered \<and>
   block_json genesis_block \<noteq> genesis_reordered \<and>
   hash demo_ext (block_json genesis_block) = hash demo_ext genesis_reordered"
proof -
  have d1: "keys_distinct (block_json genesis_block)"
    by (simp add: block_json_def genesis_block_def tx_json_def json_opt_str_def number_json_def)
  have d2: "keys_distinct genesis_reordered"
    by (simp add: genesis_reordered_def)
  have sv: "same_value (block_json genesis_block) genesis_reordered"
    by (auto simp: block_json_def genesis_block_def tx_json_def json_opt_str_def
        genesis_reordered_def number_json_def)
  have ne: "block_json genesis_block \<noteq> genesis_reordered"
    by (simp add: block_json_def genesis_reordered_def)
  from hash_ignores_key_order [OF d1 d2 sv, of demo_ext] d1 d2 sv ne show ?thesis by simp
qed

subsection \<open>Proof of work\<close>

text \<open>The search started at \<open>start\<close> stops at the first solution from there on.\<close>

lemma proof_of_work_loop_finds:
  assumes "valid_proof X lp p" and "start \<le> p"
    and "\<forall>q. start \<le> q \<and> q < p \<longrightarrow> \<not> valid_proof X lp q"
  shows "proof_of_work_loop X lp start = Some p"
  using assms
proof (induction "nat (p - start)" arbitrary: start)
  case 0
  then have "start = p" by simp
  with "0.prems" show ?case by (subst proof_of_work_loop.simps) simp
next
  case (Suc n)
  then have lt: "start < p" by simp
  with Suc.prems have nv: "\<not> valid_proof X lp start" by simp
  have "proof_of_work_loop X lp (start + 1) = Some p"
    using Suc.hyps(2) Suc.prems lt by (intro Suc.hyps(1)) auto
  with nv show ?case by (subst proof_of_work_loop.simps) simp
qed

lemma least_solution_exists:
  assumes "0 \<le> q" "valid_proof X lp q"
  shows "\<exists>p. 0 \<le> p \<and> valid_proof X lp p \<and> (\<forall>r. 0 \<le> r \<and> r < p \<longrightarrow> \<not> valid_proof X lp r)"
proof -
  define P where "P n = valid_proof X lp (int n)" for n
  have "P (nat q)" using assms by (simp add: P_def)
  then have L: "P (LEAST n. P n)" by (rule LeastI)
  have M: "\<not> P k" if "k < (LEAST n. P n)" for k using that by (rule not_less_Least)
  show ?thesis
  proof (intro exI [of _ "int (LEAST n. P n)"] conjI allI impI)
    show "0 \<le> int (LEAST n. P n)" by simp
    show "valid_proof X lp (int (LEAST n. P n))" using L by (simp add: P_def)
    fix r assume "0 \<le> r \<and> r < int (LEAST n. P n)"
    then have "nat r < (LEAST n. P n)" and "int (nat r) = r" by auto
    then show "\<not> valid_proof X lp r" using M [of "nat r"] by (simp add: P_def)
  qed
qed

text \<open>
  Claim C6. \<open>valid_proof last_proof prf\<close> holds exactly when the hex digest of the
  decimal form of \<open>last_proof\<close> followed by the decimal form of \<open>prf\<close> starts with
  four zeros. For every \<open>last_proof\<close> that has a solution among the non-negative
  integers, \<open>proof_of_work\<close> returns, and what it returns is the smallest non-negative
  solution: so the result passes \<open>valid_proof\<close>, and it is determined by
  \<open>last_proof\<close> alone.
\<close>

theorem proof_of_work_least:
  "(valid_proof X last_proof prf \<longleftrightarrow>
      take 4 (sha256_hexdigest X (str_int last_proof @ str_int prf)) = ''0000'') \<and>
   ((\<exists>q. 0 \<le> q \<and> valid_proof X last_proof q) \<longrightarrow>
      (\<exists>p. proof_of_work X last_proof = Some p \<and> 0 \<le> p \<and> valid_proof X last_proof p \<and>
           (\<forall>q. 0 \<le> q \<and> valid_proof X last_proof q \<longrightarrow> p \<le> q)))"
proof (intro conjI impI)
  show "valid_proof X last_proof prf \<longleftrightarrow>
      take 4 (sha256_hexdigest X (str_int last_proof @ str_int prf)) = ''0000''"
    by (simp add: valid_proof_def)
next
  assume "\<exists>q. 0 \<le> q \<and> valid_proof X last_proof q"
  then obtain p where p: "0 \<le> p" "valid_proof X last_proof p"
    and least: "\<forall>r. 0 \<le> r \<and> r < p \<longrightarrow> \<not> valid_proof X last_proof r"
    using least_solution_exists by blast
  have "proof_of_work X last_proof = Some p"
    unfolding proof_of_work_def using p least by (intro proof_of_work_loop_finds) auto
  moreover have "\<forall>q. 0 \<le> q \<and> valid_proof X last_proof q \<longrightarrow> p \<le> q"
    using least by (meson not_le)
  ultimately show "\<exists>p. proof_of_work X last_proof = Some p \<and> 0 \<le> p \<and>
      valid_proof X last_proof p \<and> (\<forall>q. 0 \<le> q \<and> valid_proof X last_proof q \<longrightarrow> p \<le> q)"
    using p by blast
qed

theorem proof_of_work_least_witness:
  "valid_proof demo_ext 100 2 \<and> proof_of_work demo_ext 100 = Some 2"
proof -
  have v: "valid_proof demo_ext 100 2"
    by (simp add: valid_proof_def demo_ext_def str_int_def str_nat.simps digit_char_def)
  have n: "\<not> valid_proof demo_ext 100 0" "\<not> valid_proof demo_ext 100 1"
    by (simp_all add: valid_proof_def demo_ext_def str_int_def str_nat.simps digit_char_def)
  from v have "\<exists>q. 0 \<le> q \<and> valid_proof demo_ext 100 q" by (intro exI [of _ 2]) simp
  with proof_of_work_least [of demo_ext 100 0] obtain p where
    p: "proof_of_work demo_ext 100 = Some p" "0 \<le> p" "valid_proof demo_ext 100 p"
    and least: "\<forall>q. 0 \<le> q \<and> valid_proof demo_ext 100 q \<longrightarrow> p \<le> q"
    by blast
  from least v have "p \<le> 2" by simp
  with p(2) have "p = 0 \<or> p = 1 \<or> p = 2" by arith
  with p(3) n have "p = 2" by auto
  with p(1) v show ?thesis by simp
qed

subsection \<open>Chain validation\<close>

lemma the_dicts_map_Dict: "the_dicts (map Dict ds) = Inr ds"
  by (induction ds) simp_all

lemma the_dicts_error: "the_dicts es = Inl e \<Longrightarrow> e = TypeError"
  by (induction es rule: the_dicts.induct) (auto split: sum.splits)

lemma hash_of_entry_block_as_entries:
  "hash_of_entry_block X (as_entries b) = Inr (hash X (block_json b))"
  by (cases b) (simp add: hash_of_entry_block_def as_entries_def the_dicts_map_Dict)

lemma hash_of_entry_block_error: "hash_of_entry_block X b = Inl e \<Longrightarrow> e = TypeError"
  by (auto simp: hash_of_entry_block_def split: sum.splits dest: the_dicts_error)

lemma as_entries_fields [simp]:
  "previous_hash (as_entries b) = previous_hash b"
  "blk_proof (as_entries b) = blk_proof b"
  "timestamp (as_entries b) = timestamp b"
  "index (as_entries b) = index b"
  by (simp_all add: as_entries_def)

text \<open>
  On a chain that came through JSON, and entered at \<open>i\<close> with the block before it as
  \<open>last_block\<close>, the loop answers whether every block from \<open>i\<close> on is linked to the
  one before it.
\<close>

lemma valid_chain_loop_pairs:
  "0 < i \<Longrightarrow>
   valid_chain_loop X (map as_entries chain) (as_entries (chain ! (i - 1))) i =
     Inr (\<forall>j. i \<le> j \<and> j < length chain \<longrightarrow> linked X (chain ! (j - 1)) (chain ! j))"
proof (induction "length chain - i" arbitrary: i)
  case 0
  then have "\<not> i < length chain" by simp
  then have "valid_chain_loop X (map as_entries chain) (as_entries (chain ! (i - 1))) i = Inr True"
    by (subst valid_chain_loop.simps) simp
  moreover have "\<forall>j. i \<le> j \<and> j < length chain \<longrightarrow> linked X (chain ! (j - 1)) (chain ! j)"
    using \<open>\<not> i < length chain\<close> by auto
  ultimately show ?case by simp
next
  case (Suc n)
  then have inside: "i < length chain" by simp
  show ?case
  proof (cases "linked X (chain ! (i - 1)) (chain ! i)")
    case False
    then have "valid_chain_loop X (map as_entries chain) (as_entries (chain ! (i - 1))) i = Inr False"
      using inside
      by (subst valid_chain_loop.simps)
        (auto simp: linked_def hash_of_entry_block_as_entries)
    moreover have "\<not> (\<forall>j. i \<le> j \<and> j < length chain \<longrightarrow> linked X (chain ! (j - 1)) (chain ! j))"
      using False inside by (auto intro!: exI [of _ i])
    ultimately show ?thesis by simp
  next
    case True
    then have step: "valid_chain_loop X (map as_entries chain) (as_entries (chain ! (i - 1))) i =
        valid_chain_loop X (map as_entries chain) (as_entries (chain ! i)) (i + 1)"
      using inside
      by (subst valid_chain_loop.simps)
        (auto simp: linked_def hash_of_entry_block_as_entries)
    have "valid_chain_loop X (map as_entries chain) (as_entries (chain ! (i + 1 - 1))) (i + 1) =
        Inr (\<forall>j. i + 1 \<le> j \<and> j < length chain \<longrightarrow> linked X (chain ! (j - 1)) (chain ! j))"
      using Suc.hyps(2) by (intro Suc.hyps(1)) auto
    moreover have "(\<forall>j. i + 1 \<le> j \<and> j < length chain \<longrightarrow> linked X (chain ! (j - 1)) (chain ! j)) =
        (\<forall>j. i \<le> j \<and> j < length chain \<longrightarrow> linked X (chain ! (j - 1)) (chain ! j))"
    proof -
      have "i + 1 \<le> j \<or> j = i" if "i \<le> j" for j using that by arith
      with True show ?thesis by (metis add_leD1)
    qed
    ultimately show ?thesis using step by simp
  qed
qed

lemma valid_chain_json:
  assumes "chain \<noteq> []"
  shows "valid_chain X (map as_entries chain) =
     Inr (\<forall>i. Suc i < length chain \<longrightarrow> linked X (chain ! i) (chain ! Suc i))"
proof -
  have "valid_chain_loop X (map as_entries chain) (as_entries (chain ! (1 - 1))) 1 =
      Inr (\<forall>j. 1 \<le> j \<and> j < length chain \<longrightarrow> linked X (chain ! (j - 1)) (chain ! j))"
    by (rule valid_chain_loop_pairs) simp
  moreover have "(\<forall>j. 1 \<le> j \<and> j < length chain \<longrightarrow> linked X (chain ! (j - 1)) (chain ! j)) =
      (\<forall>i. Suc i < length chain \<longrightarrow> linked X (chain ! i) (chain ! Suc i))"
  proof (intro iffI allI impI)
    fix i assume "\<forall>j. 1 \<le> j \<and> j < length chain \<longrightarrow> linked X (chain ! (j - 1)) (chain ! j)"
      and "Suc i < length chain"
    then show "linked X (chain ! i) (chain ! Suc i)"
      by (metis One_nat_def Suc_le_mono diff_Suc_1 le0)
  next
    fix j assume a: "\<forall>i. Suc i < length chain \<longrightarrow> linked X (chain ! i) (chain ! Suc i)"
      and j: "1 \<le> j \<and> j < length chain"
    then obtain i where "j = Suc i" by (cases j) auto
    with a j show "linked X (chain ! (j - 1)) (chain ! j)" by simp
  qed
  ultimately show ?thesis
    using assms by (simp add: valid_chain_def nth_map [of 0] Let_def)
qed

lemma not_less_is_greater_equal:
  "\<not> is_nan a \<Longrightarrow> \<not> is_nan b \<Longrightarrow> (\<not> num_lt a b) = num_ge a b"
  by (auto simp: num_lt_def num_ge_def)

text \<open>What the sample library functions give on the sample chain.\<close>

lemma peer_genesis_printed: "dumps sample_ext (block_json peer_genesis) = peer_genesis_text"
  by (simp add: block_json_def peer_genesis_def number_json_def sample_ext_def
      peer_genesis_text_def str_int_def str_nat.simps digit_char_def)

lemma peer_genesis_hashed:
  "hash sample_ext (block_json peer_genesis) =
     ''9e5a897bd15c91cd35c069f28ffcfa947e0de21a729784d43b6fe7b6a7e4ae99''"
  using peer_genesis_printed by (simp add: hash_def sample_ext_def)

lemma sample_proof_valid: "valid_proof sample_ext 100 35293"
  by (simp add: valid_proof_def sample_ext_def peer_genesis_text_def str_int_def str_nat.simps
      digit_char_def)

lemma peer_chain_linked: "linked sample_ext peer_genesis peer_second"
  using peer_genesis_hashed sample_proof_valid
  by (simp add: linked_def peer_second_def)
    (simp add: peer_genesis_def num_lt_def is_nan_def rank_def magnitude_def)

lemma nan_chain_linked: "linked sample_ext peer_genesis nan_second"
  using peer_genesis_hashed sample_proof_valid
  by (simp add: linked_def nan_second_def peer_second_def)
    (simp add: peer_genesis_def num_lt_def is_nan_def)

text \<open>
  Claim C5 as it is written fails on three inputs. On the empty chain the code raises
  \<open>IndexError\<close>, where the condition of the claim holds for want of a pair. The chain
  of \<open>peer_genesis\<close> and \<open>nan_second\<close> is accepted, since NaN is not less than the
  timestamp before it, though it is not greater or equal either. And on the node's own
  genesis block followed by a second block the code raises \<open>TypeError\<close>, since the
  genesis block holds a \<^verbatim>\<open>Transaction\<close> object.
\<close>

theorem valid_chain_counterexample:
  "valid_chain sample_ext [] = Inl IndexError \<and>
   valid_chain sample_ext (map as_entries [peer_genesis, nan_second]) = Inr True \<and>
   \<not> num_ge (timestamp nan_second) (timestamp peer_genesis) \<and>
   valid_chain sample_ext [own_genesis, as_entries peer_second] = Inl TypeError"
proof -
  have "valid_chain sample_ext [] = Inl IndexError"
    by (simp add: valid_chain_def)
  moreover have "valid_chain sample_ext (map as_entries [peer_genesis, nan_second]) = Inr True"
    using nan_chain_linked valid_chain_json [of "[peer_genesis, nan_second]" sample_ext]
    by (simp add: less_Suc_eq)
  moreover have "\<not> num_ge (timestamp nan_second) (timestamp peer_genesis)"
    by (simp add: num_ge_def is_nan_def nan_second_def)
  moreover have "valid_chain sample_ext [own_genesis, as_entries peer_second] = Inl TypeError"
    by (simp add: valid_chain_def valid_chain_loop.simps hash_of_entry_block_def
        own_genesis_def)
  ultimately show ?thesis by simp
qed

text \<open>
  Claim C5, amended. On a chain that has a first block and whose blocks came through
  JSON, as every chain that a peer sends, \<open>valid_chain\<close> returns true exactly when
  every block from the second one on carries the hash of the block before it as its
  \<open>previous_hash\<close>, has a proof that \<open>valid_proof\<close> accepts after the proof of the
  block before it, and has a timestamp that is not less than the timestamp of the block
  before it; when no timestamp of the chain is NaN, that last condition is that the
  timestamp is greater than or equal to the one before it. A chain of one block is valid.
\<close>

theorem valid_chain_iff_linked:
  "(chain \<noteq> [] \<longrightarrow>
      valid_chain X (map as_entries chain) =
        Inr (\<forall>i. Suc i < length chain \<longrightarrow>
               previous_hash (chain ! Suc i) = HStr (hash X (block_json (chain ! i))) \<and>
               valid_proof X (blk_proof (chain ! i)) (blk_proof (chain ! Suc i)) \<and>
               \<not> num_lt (timestamp (chain ! Suc i)) (timestamp (chain ! i)))) \<and>
   (chain \<noteq> [] \<and> (\<forall>b \<in> set chain. \<not> is_nan (timestamp b)) \<longrightarrow>
      valid_chain X (map as_entries chain) =
        Inr (\<forall>i. Suc i < length chain \<longrightarrow>
               previous_hash (chain ! Suc i) = HStr (hash X (block_json (chain ! i))) \<and>
               valid_proof X (blk_proof (chain ! i)) (blk_proof (chain ! Suc i)) \<and>
               num_ge (timestamp (chain ! Suc i)) (timestamp (chain ! i)))) \<and>
   valid_chain X [genesis] = Inr True"
proof (intro conjI impI)
  assume "chain \<noteq> []"
  then show "valid_chain X (map as_entries chain) =
        Inr (\<forall>i. Suc i < length chain \<longrightarrow>
               previous_hash (chain ! Suc i) = HStr (hash X (block_json (chain ! i))) \<and>
               valid_proof X (blk_proof (chain ! i)) (blk_proof (chain ! Suc i)) \<and>
               \<not> num_lt (timestamp (chain ! Suc i)) (timestamp (chain ! i)))"
    by (simp add: valid_chain_json linked_def)
next
  assume a: "chain \<noteq> [] \<and> (\<forall>b \<in> set chain. \<not> is_nan (timestamp b))"
  have "(\<not> num_lt (timestamp (chain ! Suc i)) (timestamp (chain ! i))) =
      num_ge (timestamp (chain ! Suc i)) (timestamp (chain ! i))" if "Suc i < length chain" for i
    using a that by (intro not_less_is_greater_equal) auto
  then have "(\<forall>i. Suc i < length chain \<longrightarrow> linked X (chain ! i) (chain ! Suc i)) =
      (\<forall>i. Suc i < length chain \<longrightarrow>
               previous_hash (chain ! Suc i) = HStr (hash X (block_json (chain ! i))) \<and>
               valid_proof X (blk_proof (chain ! i)) (blk_proof (chain ! Suc i)) \<and>
               num_ge (timestamp (chain ! Suc i)) (timestamp (chain ! i)))"
    by (auto simp: linked_def)
  with a show "valid_chain X (map as_entries chain) =
        Inr (\<forall>i. Suc i < length chain \<longrightarrow>
               previous_hash (chain ! Suc i) = HStr (hash X (block_json (chain ! i))) \<and>
               valid_proof X (blk_proof (chain ! i)) (blk_proof (chain ! Suc i)) \<and>
               num_ge (timestamp (chain ! Suc i)) (timestamp (chain ! i)))"
    by (simp add: valid_chain_json)
next
  show "valid_chain X [genesis] = Inr True"
    by (simp add: valid_chain_def valid_chain_loop.simps)
qed

theorem valid_chain_iff_linked_witness:
  "[peer_genesis, peer_second] \<noteq> [] \<and>
   \<not> is_nan (timestamp peer_genesis) \<and> \<not> is_nan (timestamp peer_second) \<and>
   valid_chain sample_ext (map as_entries [peer_genesis, peer_second]) = Inr True"
proof -
  have n: "\<not> is_nan (timestamp peer_genesis)" "\<not> is_nan (timestamp peer_second)"
    by (simp_all add: is_nan_def peer_genesis_def peer_second_def)
  have l: "previous_hash peer_second = HStr (hash sample_ext (block_json peer_genesis))"
    "valid_proof sample_ext (blk_proof peer_genesis) (blk_proof peer_second)"
    "\<not> num_lt (timestamp peer_second) (timestamp peer_genesis)"
    "num_ge (timestamp peer_second) (timestamp peer_genesis)"
    using peer_chain_linked n
    by (simp_all add: linked_def not_less_is_greater_equal)
  from valid_chain_iff_linked [of "[peer_genesis, peer_second]" sample_ext] n l
  show ?thesis by (simp add: less_Suc_eq)
qed

text \<open>The only error of the loop is the one that \<^verbatim>\<open>self.hash\<close> raises.\<close>

lemma valid_chain_loop_error:
  "valid_chain_loop X chain last_block i = Inl e \<Longrightarrow> e = TypeError"
proof (induction X chain last_block i rule: valid_chain_loop.induct)
  case (1 X chain last_block i)
  from "1.prems" show ?case
    by (subst (asm) valid_chain_loop.simps)
      (auto split: if_splits sum.splits dest: hash_of_entry_block_error "1.IH")
qed

lemma is_dict_list: "list_all is_dict es \<Longrightarrow> \<exists>ds. es = map Dict ds"
proof (induction es)
  case Nil
  then show ?case by simp
next
  case (Cons t es)
  then obtain ds where "es = map Dict ds" by auto
  moreover from Cons.prems obtain d where "t = Dict d"
    by (cases t) (simp_all add: is_dict_def)
  ultimately have "t # es = map Dict (d # ds)" by simp
  then show ?case by (rule exI)
qed

lemma json_block_as_entries: "json_block b \<Longrightarrow> \<exists>b'. b = as_entries b'"
proof -
  assume "json_block b"
  then obtain ds where ds: "transactions b = map Dict ds"
    using is_dict_list by (auto simp: json_block_def)
  have "b = as_entries \<lparr>index = index b, timestamp = timestamp b, transactions = ds,
      blk_proof = blk_proof b, previous_hash = previous_hash b, b_extra = b_extra b\<rparr>"
    using ds by (simp add: as_entries_def)
  then show ?thesis by blast
qed

lemma json_chain_as_entries: "list_all json_block chain \<Longrightarrow> \<exists>chain'. chain = map as_entries chain'"
proof (induction chain)
  case Nil
  then show ?case by simp
next
  case (Cons b chain)
  then obtain chain' where "chain = map as_entries chain'" by auto
  moreover from Cons.prems obtain b' where "b = as_entries b'"
    using json_block_as_entries by auto
  ultimately have "b # chain = map as_entries (b' # chain')" by simp
  then show ?case by (rule exI)
qed

text \<open>
  Claim C10. \<open>valid_chain\<close> reads the first element of its argument before anything
  else. On the empty chain that read fails with \<open>IndexError\<close> and no boolean comes
  back. On a chain with a first block the call never ends in \<open>IndexError\<close>, and on
  every such chain that came through JSON a boolean comes back: under the precondition of
  a non-empty chain the error branch of the index is never taken.
\<close>

theorem valid_chain_needs_first_block:
  "(chain = [] \<longrightarrow> valid_chain X chain = Inl IndexError) \<and>
   (chain \<noteq> [] \<longrightarrow> valid_chain X chain \<noteq> Inl IndexError) \<and>
   (chain \<noteq> [] \<and> list_all json_block chain \<longrightarrow> (\<exists>answer. valid_chain X chain = Inr answer))"
proof (intro conjI impI)
  assume "chain = []"
  then show "valid_chain X chain = Inl IndexError" by (simp add: valid_chain_def)
next
  assume "chain \<noteq> []"
  then show "valid_chain X chain \<noteq> Inl IndexError"
    by (auto simp: valid_chain_def Let_def dest: valid_chain_loop_error)
next
  assume a: "chain \<noteq> [] \<and> list_all json_block chain"
  then obtain chain' where c: "chain = map as_entries chain'"
    using json_chain_as_entries by blast
  with a have "chain' \<noteq> []" by auto
  then show "\<exists>answer. valid_chain X chain = Inr answer"
    unfolding c by (simp add: valid_chain_json)
qed

theorem valid_chain_needs_first_block_witness:
  "valid_chain demo_ext [] = Inl IndexError \<and>
   [as_entries genesis_block] \<noteq> [] \<and> list_all json_block [as_entries genesis_block] \<and>
   valid_chain demo_ext [as_entries genesis_block] \<noteq> Inl IndexError \<and>
   (\<exists>answer. valid_chain demo_ext [as_entries genesis_block] = Inr answer)"
proof -
  have j: "list_all json_block [as_entries genesis_block]"
    by (simp add: json_block_def as_entries_def genesis_block_def is_dict_def)
  from valid_chain_needs_first_block [of "[]" demo_ext]
    valid_chain_needs_first_block [of "[as_entries genesis_block]" demo_ext] j
  show ?thesis by simp
qed

subsection \<open>Transaction admission\<close>

lemmas admission_defs =
  new_transaction_def get_address_def getOrCreateAddress_def new_Transaction_def
  getTransactionsByAddress_def as_lookup_def is_valid_def is_signature_valid_def
  execute_transaction_def add_amount_def involves_def len_pair_def

lemmas printing_defs =
  two_ints_def py_split_def py_int_def read_nat_def is_space_def is_digit_def digit_val_def
  msg_signed_def str_opt_def str_int_def str_nat.simps digit_char_def

lemma funded_reached:
  "new_transaction X empty_node ''0'' ''1 2'' 5 None None = (Returns (Some 0), funded)"
  by (simp add: admission_defs empty_node_def funded_def coinbase_def)

text \<open>
  Claim C1, at the input where the code departs from it. On a fresh node, a transfer of
  \<open>- 5\<close> from the sender \<^verbatim>\<open>'0'\<close> to \<^verbatim>\<open>B\<close> is not rejected: the call returns
  the index 0, \<^verbatim>\<open>B\<close> holds \<open>- 5\<close> afterwards and the transaction stands in the
  pending pool.
\<close>

theorem negative_amount_admitted:
  "new_transaction X empty_node ''0'' ''B'' (- 5) None None =
     (Returns (Some 0),
      \<lparr>current_transactions =
         [\<lparr>sender = Sentinel, recipient = Ref 0, t_amount = - 5, message = None,
           signature = None, executed = True\<rparr>],
       addresses = [\<lparr>address = ''B'', amount = - 5\<rparr>], the_chain = [], nodes = []\<rparr>)"
  by (simp add: admission_defs empty_node_def)

text \<open>
  Claim C2, at the input where the code departs from it. Starting from the empty ledger,
  one call of \<open>new_transaction\<close> leaves the address \<^verbatim>\<open>B\<close> with the balance
  \<open>- 5\<close>, which \<open>get_balance\<close> reports.
\<close>

theorem negative_balance_reached:
  "get_balance (snd (new_transaction X empty_node ''0'' ''B'' (- 5) None None)) ''B'' =
     Returns (Amount (- 5))"
  by (simp add: admission_defs empty_node_def get_balance_def)

text \<open>
  The second argument of \<open>is_signature_valid\<close> has no influence on its result: only
  its length as a pair is used.
\<close>

lemma is_signature_valid_ignores_history:
  "is_signature_valid X s t history = is_signature_valid X s t history'"
  unfolding is_signature_valid_def len_pair_def by (rule refl)

text \<open>
  Claim C3, at the input where the code departs from it. The address \<^verbatim>\<open>1 2\<close> of the
  node \<open>funded\<close> is involved in one earlier transaction, the pending one that credited
  it. When it sends 1 to \<^verbatim>\<open>B\<close> with the signature \<^verbatim>\<open>3 4\<close>, the message handed to
  the signature check ends in the count 2, and the call is admitted, rejected or fails as
  that check answers.
\<close>

theorem signed_count_is_two:
  "getTransactionsByAddress funded (Object 0) = (Some [], Some [coinbase]) \<and>
   fst (new_transaction X funded ''1 2'' ''B'' 1 (Some ''3 4'') None) =
     (case ecdsa_verify X (3, 4) ''1 2 B None 1 2'' (1, 2) of
        Inl e \<Rightarrow> Raises e
      | Inr True \<Rightarrow> Returns (Some 0)
      | Inr False \<Rightarrow> Returns None)"
  by (simp add: admission_defs printing_defs funded_def coinbase_def
      split: sum.splits bool.splits)

text \<open>
  Claim C7, at the input where the code departs from it. The address \<^verbatim>\<open>1 2\<close> holds 5
  and sends 1 to \<^verbatim>\<open>B\<close>. Without a signature the call raises \<open>AttributeError\<close>, and
  with the signature \<^verbatim>\<open>xyz\<close> it raises \<open>ValueError\<close>; in both cases the recipient
  has been added to the ledger before.
\<close>

theorem bad_signature_raises:
  "new_transaction X funded ''1 2'' ''B'' 1 None None =
     (Raises AttributeError,
      funded\<lparr>addresses := addresses funded @ [\<lparr>address = ''B'', amount = 0\<rparr>]\<rparr>) \<and>
   new_transaction X funded ''1 2'' ''B'' 1 (Some ''xyz'') None =
     (Raises ValueError,
      funded\<lparr>addresses := addresses funded @ [\<lparr>address = ''B'', amount = 0\<rparr>]\<rparr>)"
  by (simp add: admission_defs printing_defs funded_def coinbase_def)

subsection \<open>The returned index\<close>

lemma peer_chain_valid:
  "valid_chain sample_ext [as_entries peer_genesis, as_entries peer_second] = Inr True"
  using peer_chain_linked valid_chain_json [of "[peer_genesis, peer_second]" sample_ext]
  by (simp add: less_Suc_eq)

text \<open>
  The node \<open>booted\<close> is what the code makes of the empty node by minting one unit to
  the key \<^verbatim>\<open>1 2\<close> and forging the genesis block, before a peer is registered.
\<close>

lemma booted_reached:
  "perform sample_ext empty_node
     [Submit \<lparr>c_sender = ''0'', c_recipient = ''1 2'', c_amount = 1, c_signature = None,
        c_message = None\<rparr>,
      Forge 1541000100 100 (Some (HInt 1))] = booted\<lparr>nodes := []\<rparr>"
  by (simp add: submit_def admission_defs empty_node_def new_block_def truthy_def
      update_chainFile_def serializable_def Let_def booted_def own_genesis_def minted_def)

text \<open>
  Claim C8, at the input where the code departs from it. The node \<open>booted\<close> holds its
  genesis block and asks its peer, whose chain of two blocks \<open>valid_chain\<close> accepts and
  whose second block carries the index 7. The node takes that chain, which has two
  blocks. The next admitted transaction returns 8, and the block that \<open>new_block\<close>
  then forges, which holds this transaction, has the index 2.
\<close>

theorem returned_index_is_not_next_index:
  "resolve_conflicts sample_ext peer_net booted = (Returns (True, []), adopted) \<and>
   length (the_chain adopted) = 2 \<and>
   new_transaction sample_ext adopted ''0'' ''B'' 1 None None = (Returns (Some 8), credited) \<and>
   fst (new_block sample_ext 1541000200 credited 1 (Some (HStr ''00''))) = Returns forged \<and>
   index forged = 2"
proof -
  have "resolve_conflicts sample_ext peer_net booted = (Returns (True, []), adopted)"
    by (simp add: resolve_conflicts_def examine_def booted_def peer_net_def peer_chain_valid
        adopted_def Let_def)
  moreover have "length (the_chain adopted) = 2"
    by (simp add: adopted_def)
  moreover have "new_transaction sample_ext adopted ''0'' ''B'' 1 None None =
      (Returns (Some 8), credited)"
    by (simp add: credited_def adopted_def booted_def minted_to_B_def peer_second_def
        admission_defs)
  moreover have "fst (new_block sample_ext 1541000200 credited 1 (Some (HStr ''00''))) =
      Returns forged"
    by (simp add: new_block_def truthy_def update_chainFile_def serializable_def Let_def
        credited_def adopted_def booted_def forged_def minted_to_B_def as_entries_def
        peer_genesis_def peer_second_def)
  moreover have "index forged = 2"
    by (simp add: forged_def)
  ultimately show ?thesis by simp
qed

lemma getOrCreateAddress_chain:
  "the_chain (snd (getOrCreateAddress s a)) = the_chain s"
  by (simp add: getOrCreateAddress_def Let_def split: sum.splits)

lemma execute_transaction_chain:
  "execute_transaction s t = (r, s') \<Longrightarrow> the_chain s' = the_chain s"
  by (auto simp: execute_transaction_def split: sum.splits party.splits)

text \<open>
  What the code does return: 0 when the chain is empty and the index of the last block
  plus one otherwise. This is the chain length whenever every block of the chain carries
  its position as its index.
\<close>

lemma new_transaction_returns_next_index:
  assumes "new_transaction X s sender_id recipient_id amt sig msg = (Returns (Some i), s')"
  shows "i = (if the_chain s = [] then 0 else index (last (the_chain s)) + 1) \<and>
         (index_is_position (the_chain s) \<longrightarrow> i = int (length (the_chain s)))"
proof -
  from assms have i: "i = (if the_chain s = [] then 0 else index (last (the_chain s)) + 1)"
    using getOrCreateAddress_chain [of s recipient_id]
    by (auto simp: new_transaction_def Let_def split: sum.splits prod.splits if_splits
        bool.splits outcome.splits dest!: execute_transaction_chain)
  moreover have "i = int (length (the_chain s))" if "index_is_position (the_chain s)"
  proof (cases "the_chain s = []")
    case True
    with i show ?thesis by simp
  next
    case False
    then have "index (last (the_chain s)) = int (length (the_chain s) - 1)"
      using that by (simp add: index_is_position_def last_conv_nth)
    with i False show ?thesis by (cases "the_chain s") auto
  qed
  ultimately show ?thesis by simp
qed

lemma new_transaction_returns_next_index_example:
  "new_transaction demo_ext one_peer ''0'' ''B'' 1 None None = (Returns (Some 1), one_peer_credited) \<and>
   index_is_position (the_chain one_peer) \<and>
   (1::int) = int (length (the_chain one_peer))"
proof -
  have run: "new_transaction demo_ext one_peer ''0'' ''B'' 1 None None =
      (Returns (Some 1), one_peer_credited)"
    by (simp add: one_peer_def one_peer_credited_def as_entries_def genesis_block_def
        admission_defs)
  have pos: "index_is_position (the_chain one_peer)"
    by (simp add: index_is_position_def one_peer_def as_entries_def genesis_block_def)
  from new_transaction_returns_next_index [OF run] pos run show ?thesis by simp
qed

subsection \<open>Consensus\<close>

lemma demo_chain_valid:
  "valid_chain demo_ext [as_entries genesis_block, as_entries second_block] = Inr True"
proof -
  have "linked demo_ext genesis_block second_block"
    by (simp add: linked_def hash_def block_json_def valid_proof_def demo_ext_def
        genesis_block_def second_block_def str_int_def str_nat.simps digit_char_def
        num_lt_def)
  then show ?thesis
    using valid_chain_json [of "[genesis_block, second_block]" demo_ext]
    by (simp add: less_Suc_eq)
qed

text \<open>Whatever the other peers would answer, only the first node of the iteration is asked.\<close>

lemma resolve_conflicts_first_only:
  "nodes s = node # others \<Longrightarrow>
   fst (resolve_conflicts X net s) = fst (resolve_conflicts X net (s\<lparr>nodes := [node]\<rparr>))"
  by (simp add: resolve_conflicts_def Let_def
      split: sum.splits option.splits list.splits prod.splits)

text \<open>So the rejected list never names more than that one node.\<close>

lemma examine_appends_at_most_one:
  "examine X node r (m, c, bad) = Inr (m', c', bad') \<Longrightarrow> bad' = bad \<or> bad' = bad @ [node]"
  by (auto simp: examine_def split: sum.splits bool.splits if_splits)

lemma resolve_conflicts_rejects_at_most_one:
  assumes "resolve_conflicts X net s = (Returns (replaced, rejected), s')"
  shows "rejected = [] \<or> rejected = [hd (nodes s)]"
proof (cases "nodes s = []")
  case True
  with assms show ?thesis by (simp add: resolve_conflicts_def)
next
  case False
  with assms show ?thesis
    unfolding resolve_conflicts_def Let_def
    by (auto split: sum.splits prod.splits option.splits list.splits if_splits
        dest!: examine_appends_at_most_one)
qed

text \<open>
  Claim C4, at the input where the code departs from it. The node \<open>two_peers\<close> holds
  one block. Its first peer answers with a chain of the same length, its second peer with
  a chain of two blocks that \<open>valid_chain\<close> accepts. \<open>resolve_conflicts\<close> returns
  after the first peer: it reports no replacement, names that peer as rejected and keeps
  the chain of one block.
\<close>

theorem resolve_conflicts_stops_at_first_peer:
  "resolve_conflicts demo_ext two_peers_net two_peers = (Returns (False, [''a'']), two_peers) \<and>
   valid_chain demo_ext (map as_entries (r_chain (two_peers_net ''b''))) = Inr True \<and>
   r_length (two_peers_net ''b'') > int (length (the_chain two_peers))"
  by (simp add: resolve_conflicts_def examine_def two_peers_def two_peers_net_def
      demo_chain_valid Let_def)

subsection \<open>Address lookup\<close>

text \<open>
  The facts below say what the methods do on every input. They complete the theorems
  above, which run the code on single inputs.
\<close>

lemma enumerate_find_Some:
  "enumerate_find a k xs = Some i \<Longrightarrow> k \<le> i \<and> i - k < length xs \<and> xs ! (i - k) = a"
proof (induction xs arbitrary: k)
  case Nil
  then show ?case by simp
next
  case (Cons x xs)
  show ?case
  proof (cases "a = x")
    case True
    with Cons.prems show ?thesis by simp
  next
    case False
    with Cons.prems have "enumerate_find a (Suc k) xs = Some i" by simp
    then have "Suc k \<le> i \<and> i - Suc k < length xs \<and> xs ! (i - Suc k) = a" by (rule Cons.IH)
    then show ?thesis by (auto simp: Suc_diff_le nth_Cons')
  qed
qed

lemma enumerate_find_None: "enumerate_find a k xs = None \<longleftrightarrow> a \<notin> set xs"
  by (induction xs arbitrary: k) auto

lemma get_address_Ref:
  "get_address s a = Inr (Ref i) \<Longrightarrow>
     i < length (addresses s) \<and> address (addresses s ! i) = a \<and> a \<noteq> ''0''"
  by (auto simp: get_address_def Let_def split: if_splits option.splits
      dest!: enumerate_find_Some)

lemma get_address_Sentinel: "get_address s a = Inr Sentinel \<longleftrightarrow> a = ''0''"
  by (auto simp: get_address_def Let_def split: if_splits option.splits)

lemma get_address_Inl:
  "get_address s a = Inl e \<Longrightarrow> a \<noteq> ''0'' \<and> a \<notin> address ` set (addresses s)"
  by (auto simp: get_address_def Let_def enumerate_find_None split: if_splits option.splits)

lemma getOrCreateAddress_cases:
  assumes "getOrCreateAddress s a = (p, s1)"
  shows "(s1 = s \<and> get_address s a = Inr p) \<or>
         (s1 = s\<lparr>addresses := addresses s @ [\<lparr>address = a, amount = 0\<rparr>]\<rparr> \<and>
          p = Ref (length (addresses s)) \<and> a \<noteq> ''0'' \<and> a \<notin> address ` set (addresses s))"
  using assms
  by (auto simp: getOrCreateAddress_def Let_def split: sum.splits dest: get_address_Inl)


lemma getOrCreateAddress_Ref:
  assumes "getOrCreateAddress s a = (Ref j, s1)"
  shows "j < length (addresses s1) \<and> address (addresses s1 ! j) = a"
  using getOrCreateAddress_cases [OF assms]
  by (auto dest!: get_address_Ref simp: nth_append)

lemma getOrCreateAddress_grows:
  assumes "getOrCreateAddress s a = (p, s1)"
  shows "length (addresses s) \<le> length (addresses s1)"
  using getOrCreateAddress_cases [OF assms] by auto

subsection \<open>The effect of one call of \<^verbatim>\<open>new_transaction\<close>\<close>

lemma execute_transaction_moves:
  assumes "recipient t = Ref j" "j < length (addresses s)"
    and "\<And>i. sender t = Ref i \<Longrightarrow> i < length (addresses s)"
  shows "execute_transaction s t =
     (Returns (t\<lparr>executed := True\<rparr>), s\<lparr>addresses := moved (addresses s) (sender t) j (t_amount t)\<rparr>)"
  using assms
  by (cases "sender t") (simp_all add: execute_transaction_def add_amount_def moved_def Let_def)

lemma signature_valid_recipient:
  "is_signature_valid X s t h = Inr True \<Longrightarrow> recipient t = Sentinel \<Longrightarrow> sender t = Sentinel"
  by (auto simp: is_signature_valid_def Let_def split: party.splits option.splits sum.splits
      prod.splits)

text \<open>
  A call that is not admitted leaves the state as it was, but for a new recipient with
  balance 0. A call that is admitted passed \<open>is_valid\<close>, moved the amount and added
  the executed transaction to the pool.
\<close>

lemma new_transaction_effect:
  assumes "new_transaction X s a b amt sig msg = (r, s')"
  shows "(\<not> is_admitted r \<and> (s' = s \<or> s' = snd (getOrCreateAddress s b))) \<or>
         (is_admitted r \<and>
          (\<exists>p j s1. get_address s a = Inr p \<and> getOrCreateAddress s b = (Ref j, s1) \<and>
             is_valid s1 (new_Transaction p (Ref j) amt sig msg) \<and>
             s' = s1\<lparr>addresses := moved (addresses s1) p j amt,
                    current_transactions := current_transactions s1 @
                      [(new_Transaction p (Ref j) amt sig msg)\<lparr>executed := True\<rparr>]\<rparr>))"
proof (cases "get_address s a")
  case (Inl e)
  with assms show ?thesis by (auto simp: new_transaction_def is_admitted_def)
next
  case (Inr p)
  obtain q s1 where g: "getOrCreateAddress s b = (q, s1)" by (cases "getOrCreateAddress s b")
  define t where "t = new_Transaction p q amt sig msg"
  define h where "h = getTransactionsByAddress s1 (as_lookup p)"
  have nt: "(r, s') =
      (if \<not> is_valid s1 t then (Returns None, s1)
       else case is_signature_valid X s1 t h of
              Inl e \<Rightarrow> (Raises e, s1)
            | Inr False \<Rightarrow> (Returns None, s1)
            | Inr True \<Rightarrow>
               (case execute_transaction s1 t of
                  (Raises e, s2) \<Rightarrow> (Raises e, s2)
                | (Returns transaction', s2) \<Rightarrow>
                   (let s3 = s2\<lparr>current_transactions := current_transactions s2 @ [transaction']\<rparr>
                    in if length (the_chain s3) = 0 then (Returns (Some 0), s3)
                       else (Returns (Some (index (last (the_chain s3)) + 1)), s3))))"
    using assms Inr g unfolding new_transaction_def t_def h_def Let_def by simp
  show ?thesis
  proof (cases "is_valid s1 t \<and> is_signature_valid X s1 t h = Inr True")
    case False
    then have "\<not> is_admitted r \<and> s' = s1"
      using nt by (auto simp: is_admitted_def split: sum.splits bool.splits if_splits)
    with g show ?thesis by simp
  next
    case True
    show ?thesis
    proof (cases q)
      case Sentinel
      with True have "sender t = Sentinel"
        using signature_valid_recipient [of X s1 t h] by (simp add: t_def new_Transaction_def)
      with Sentinel have "execute_transaction s1 t = (Raises TypeError, s1)"
        by (simp add: execute_transaction_def t_def new_Transaction_def)
      with nt True have "\<not> is_admitted r \<and> s' = s1" by (simp add: is_admitted_def)
      with g show ?thesis by simp
    next
      case (Ref j)
      with g have j: "j < length (addresses s1)" using getOrCreateAddress_Ref by blast
      have i: "i < length (addresses s1)" if "sender t = Ref i" for i
      proof -
        from that have "p = Ref i" by (simp add: t_def new_Transaction_def)
        with Inr have "i < length (addresses s)" by (auto dest: get_address_Ref)
        with getOrCreateAddress_grows [OF g] show ?thesis by simp
      qed
      have "execute_transaction s1 t =
          (Returns (t\<lparr>executed := True\<rparr>), s1\<lparr>addresses := moved (addresses s1) p j amt\<rparr>)"
        using execute_transaction_moves [of t j s1] j i Ref
        by (simp add: t_def new_Transaction_def)
      with nt True have "is_admitted r"
        and "s' = s1\<lparr>addresses := moved (addresses s1) p j amt,
                    current_transactions := current_transactions s1 @ [t\<lparr>executed := True\<rparr>]\<rparr>"
        by (auto simp: is_admitted_def Let_def split: if_splits)
      with Inr g Ref True show ?thesis by (auto simp: t_def)
    qed
  qed
qed

text \<open>What \<open>moved\<close> changes: one or two balances, and no name.\<close>

lemma length_moved [simp]: "length (moved ads p j amt) = length ads"
  by (simp add: moved_def Let_def split: party.splits)

lemma map_address_update:
  "map address (ads[i := (ads ! i)\<lparr>amount := v\<rparr>]) = map address ads"
proof (cases "i < length ads")
  case True
  then show ?thesis by (simp add: map_update list_update_same_conv)
next
  case False
  then show ?thesis by (metis list_update_beyond not_less)
qed

lemma address_moved [simp]: "map address (moved ads p j amt) = map address ads"
  by (simp add: moved_def Let_def map_address_update split: party.splits)

lemma amount_moved:
  assumes "k < length ads"
  shows "amount (moved ads p j amt ! k) =
     amount (ads ! k) - (if p = Ref k then amt else 0) + (if k = j then amt else 0)"
  using assms by (auto simp: moved_def Let_def nth_list_update split: party.splits)

subsection \<open>Rejections\<close>

text \<open>
  The rejections that do return \<^verbatim>\<open>None\<close>: an unknown sender, the amount 0, a sender
  that holds less than the amount, and a signature that is well formed and that the
  library refuses.
\<close>

lemma zero_amount_rejected:
  assumes "get_address s a = Inr p"
  shows "new_transaction X s a b 0 sig msg = (Returns None, snd (getOrCreateAddress s b))"
  using assms
  by (cases "getOrCreateAddress s b")
    (simp add: new_transaction_def is_valid_def new_Transaction_def)

lemma overdraft_rejected:
  assumes "get_address s a = Inr (Ref i)" and "amount (addresses s ! i) < amt"
  shows "new_transaction X s a b amt sig msg = (Returns None, snd (getOrCreateAddress s b))"
proof -
  obtain q s1 where g: "getOrCreateAddress s b = (q, s1)" by (cases "getOrCreateAddress s b")
  from assms(1) have "i < length (addresses s)" by (auto dest: get_address_Ref)
  with getOrCreateAddress_cases [OF g] have "addresses s1 ! i = addresses s ! i"
    by (auto simp: nth_append)
  with assms g show ?thesis
    by (simp add: new_transaction_def is_valid_def new_Transaction_def)
qed

lemma unknown_sender_rejected:
  "get_address s a = Inl e \<Longrightarrow> new_transaction X s a b amt sig msg = (Returns None, s)"
  by (simp add: new_transaction_def)

lemma getOrCreateAddress_frame:
  assumes "getOrCreateAddress s b = (q, s1)"
  shows "current_transactions s1 = current_transactions s \<and> the_chain s1 = the_chain s \<and>
         nodes s1 = nodes s \<and>
         (addresses s1 = addresses s \<or> addresses s1 = addresses s @ [\<lparr>address = b, amount = 0\<rparr>])"
  using getOrCreateAddress_cases [OF assms] by auto

lemma signature_mismatch_rejected:
  assumes "get_address s a = Inr (Ref i)" and "getOrCreateAddress s b = (Ref j, s1)"
    and "two_ints sg = Inr sig_pair" and "two_ints a = Inr key_pair"
    and "ecdsa_verify X sig_pair (msg_signed a b msg amt 2) key_pair = Inr False"
  shows "new_transaction X s a b amt (Some sg) msg = (Returns None, s1)"
proof -
  from assms(1) have i: "i < length (addresses s)" "address (addresses s ! i) = a"
    by (auto dest: get_address_Ref)
  with getOrCreateAddress_cases [OF assms(2)] have "address (addresses s1 ! i) = a"
    by (auto simp: nth_append)
  moreover from assms(2) have "address (addresses s1 ! j) = b"
    using getOrCreateAddress_Ref by blast
  ultimately show ?thesis
    using assms
    unfolding new_transaction_def is_signature_valid_def new_Transaction_def len_pair_def Let_def
    by (cases sig_pair; cases key_pair) simp
qed

subsection \<open>What the signature check covers\<close>

text \<open>
  With the sender \<^verbatim>\<open>'0'\<close> the signature plays no part in the answer. An admitted
  transaction of any other sender carried a signature that the library accepted for the
  message built from the two identities, the message text, the amount and the constant 2.
\<close>

lemma sentinel_skips_signature:
  "fst (new_transaction X s ''0'' b amt sig msg) = fst (new_transaction X s ''0'' b amt sig' msg)"
proof -
  obtain q s1 where g: "getOrCreateAddress s b = (q, s1)" by (cases "getOrCreateAddress s b")
  show ?thesis
    unfolding new_transaction_def get_address_def is_signature_valid_def new_Transaction_def
      is_valid_def execute_transaction_def Let_def
    by (cases q) (simp_all add: g add_amount_def)
qed

lemma admitted_signature_checked:
  assumes adm: "new_transaction X s a b amt sig msg = (Returns (Some n), s')" and a: "a \<noteq> ''0''"
  shows "\<exists>sg sig_pair key_pair.
           sig = Some sg \<and> two_ints sg = Inr sig_pair \<and> two_ints a = Inr key_pair \<and>
           ecdsa_verify X sig_pair (msg_signed a b msg amt 2) key_pair = Inr True"
proof -
  from new_transaction_effect [OF adm] obtain p j s1 where
    p: "get_address s a = Inr p" and g: "getOrCreateAddress s b = (Ref j, s1)"
    by (auto simp: is_admitted_def)
  from p a obtain i where pi: "p = Ref i"
    by (cases p) (simp_all add: get_address_Sentinel)
  with p have i: "i < length (addresses s)" "address (addresses s ! i) = a"
    by (auto dest: get_address_Ref)
  with getOrCreateAddress_cases [OF g] have ai: "address (addresses s1 ! i) = a"
    by (auto simp: nth_append)
  from g have bj: "address (addresses s1 ! j) = b" using getOrCreateAddress_Ref by blast
  define t where "t = new_Transaction (Ref i) (Ref j) amt sig msg"
  have "is_signature_valid X s1 t (getTransactionsByAddress s1 (Object i)) = Inr True"
    using adm p g pi unfolding new_transaction_def Let_def t_def
    by (auto simp: as_lookup_def split: if_splits sum.splits bool.splits)
  then show ?thesis
    unfolding is_signature_valid_def t_def new_Transaction_def len_pair_def Let_def
    by (auto simp: ai bj split: option.splits sum.splits prod.splits)
qed

subsection \<open>Balances over a run\<close>

lemma received_snoc:
  "received a (adm @ [c]) = received a adm + (if c_recipient c = a then c_amount c else 0)"
  by (simp add: received_def)

lemma sent_snoc:
  "sent a (adm @ [c]) = sent a adm + (if c_sender c = a then c_amount c else 0)"
  by (simp add: sent_def)

lemma received_unknown: "\<forall>c \<in> set adm. c_recipient c \<noteq> a \<Longrightarrow> received a adm = 0"
  by (induction adm) (auto simp: received_def)

lemma sent_unknown: "\<forall>c \<in> set adm. c_sender c \<noteq> a \<Longrightarrow> sent a adm = 0"
  by (induction adm) (auto simp: sent_def)

lemma distinct_names_nth:
  "distinct (map address ads) \<Longrightarrow> i < length ads \<Longrightarrow> k < length ads \<Longrightarrow>
   (address (ads ! i) = address (ads ! k)) = (i = k)"
  using nth_eq_iff_index_eq [of "map address ads" i k] by simp

lemma balanced_getOrCreateAddress:
  assumes "balanced s adm" and g: "getOrCreateAddress s b = (q, s1)"
  shows "balanced s1 adm"
  using getOrCreateAddress_cases [OF g]
proof
  assume "s1 = s \<and> get_address s b = Inr q"
  with assms show ?thesis by simp
next
  assume new: "s1 = s\<lparr>addresses := addresses s @ [\<lparr>address = b, amount = 0\<rparr>]\<rparr> \<and>
      q = Ref (length (addresses s)) \<and> b \<noteq> ''0'' \<and> b \<notin> address ` set (addresses s)"
  from assms(1) new have "\<forall>c \<in> set adm. c_recipient c \<noteq> b" "\<forall>c \<in> set adm. c_sender c \<noteq> b"
    by (auto simp: balanced_def)
  then have zero: "received b adm - sent b adm = 0"
    by (simp add: received_unknown sent_unknown)
  have "distinct (map address (addresses s1))" "''0'' \<notin> address ` set (addresses s1)"
    using assms(1) new by (auto simp: balanced_def)
  moreover have "\<forall>c \<in> set adm. c_recipient c \<in> address ` set (addresses s1) \<and>
        (c_sender c = ''0'' \<or> c_sender c \<in> address ` set (addresses s1))"
    using assms(1) new by (auto simp: balanced_def)
  moreover have "amount (addresses s1 ! k) =
        received (address (addresses s1 ! k)) adm - sent (address (addresses s1 ! k)) adm"
    if "k < length (addresses s1)" for k
  proof -
    from that new have "k < length (addresses s) \<or> k = length (addresses s)" by auto
    then show ?thesis using assms(1) new zero by (auto simp: balanced_def nth_append)
  qed
  ultimately show ?thesis by (simp add: balanced_def)
qed

lemma submit_balanced:
  assumes bal: "balanced s adm" and sub: "submit X s c = (r, s')"
  shows "balanced s' (if is_admitted r then adm @ [c] else adm)"
proof -
  define a b amt where "a = c_sender c" and "b = c_recipient c" and "amt = c_amount c"
  from sub have nt: "new_transaction X s a b amt (c_signature c) (c_message c) = (r, s')"
    by (simp add: submit_def a_def b_def amt_def)
  from new_transaction_effect [OF nt] show ?thesis
  proof (elim disjE conjE exE)
    assume "\<not> is_admitted r" "s' = s"
    with bal show ?thesis by simp
  next
    assume "\<not> is_admitted r" "s' = snd (getOrCreateAddress s b)"
    then show ?thesis
      using bal balanced_getOrCreateAddress [of s adm b] by (auto simp: prod_eq_iff)
  next
    fix p j s1
    assume adm: "is_admitted r" and p: "get_address s a = Inr p"
      and g: "getOrCreateAddress s b = (Ref j, s1)"
      and s': "s' = s1\<lparr>addresses := moved (addresses s1) p j amt,
                    current_transactions := current_transactions s1 @
                      [(new_Transaction p (Ref j) amt (c_signature c) (c_message c))\<lparr>executed := True\<rparr>]\<rparr>"
    have b1: "balanced s1 adm" using bal g by (rule balanced_getOrCreateAddress)
    then have dist: "distinct (map address (addresses s1))"
      and no0: "''0'' \<notin> address ` set (addresses s1)" by (simp_all add: balanced_def)
    from g have j: "j < length (addresses s1)" "address (addresses s1 ! j) = b"
      using getOrCreateAddress_Ref by blast+
    have names: "map address (addresses s') = map address (addresses s1)"
      by (simp add: s')
    have sender: "(a = address (addresses s1 ! k)) = (p = Ref k)" if k: "k < length (addresses s1)" for k
    proof (cases p)
      case Sentinel
      with p have "a = ''0''" by (simp add: get_address_Sentinel)
      with no0 k Sentinel show ?thesis by (metis imageI nth_mem party.distinct(1))
    next
      case (Ref i)
      with p have i: "i < length (addresses s)" "address (addresses s ! i) = a"
        by (auto dest: get_address_Ref)
      from getOrCreateAddress_cases [OF g] i have i1: "i < length (addresses s1)"
        "address (addresses s1 ! i) = a" by (auto simp: nth_append)
      have "(address (addresses s1 ! i) = address (addresses s1 ! k)) = (i = k)"
        using dist i1(1) k by (rule distinct_names_nth)
      with i1 k Ref show ?thesis by auto
    qed
    have recipient: "(b = address (addresses s1 ! k)) = (k = j)" if k: "k < length (addresses s1)" for k
    proof -
      have "(address (addresses s1 ! j) = address (addresses s1 ! k)) = (j = k)"
        using dist j(1) k by (rule distinct_names_nth)
      with j k show ?thesis by auto
    qed
    have set_names: "address ` set (addresses s') = address ` set (addresses s1)"
      using names by (metis list.set_map)
    have known_b: "b \<in> address ` set (addresses s1)" using j by (metis imageI nth_mem)
    have known_a: "a = ''0'' \<or> a \<in> address ` set (addresses s1)"
    proof (cases p)
      case Sentinel
      with p show ?thesis by (simp add: get_address_Sentinel)
    next
      case (Ref i)
      with p have "i < length (addresses s)" "address (addresses s ! i) = a"
        by (auto dest: get_address_Ref)
      then have "a \<in> address ` set (addresses s)" by (metis imageI nth_mem)
      with getOrCreateAddress_cases [OF g] show ?thesis by auto
    qed
    have "distinct (map address (addresses s'))" using dist names by simp
    moreover have "''0'' \<notin> address ` set (addresses s')" using no0 set_names by simp
    moreover have "\<forall>c' \<in> set (adm @ [c]). c_recipient c' \<in> address ` set (addresses s') \<and>
        (c_sender c' = ''0'' \<or> c_sender c' \<in> address ` set (addresses s'))"
      using known_a known_b b1 set_names by (auto simp: balanced_def a_def b_def)
    moreover have "amount (addresses s' ! k) =
          received (address (addresses s' ! k)) (adm @ [c]) -
          sent (address (addresses s' ! k)) (adm @ [c])" if "k < length (addresses s')" for k
    proof -
      from that have k: "k < length (addresses s1)" by (simp add: s')
      have nm: "address (addresses s' ! k) = address (addresses s1 ! k)"
        using names k by (metis length_map nth_map)
      have "amount (addresses s' ! k) =
          amount (addresses s1 ! k) - (if p = Ref k then amt else 0) + (if k = j then amt else 0)"
        using k by (simp add: s' amount_moved)
      also have "amount (addresses s1 ! k) =
          received (address (addresses s1 ! k)) adm - sent (address (addresses s1 ! k)) adm"
        using b1 k by (simp add: balanced_def)
      finally show ?thesis
        using sender [OF k] recipient [OF k]
        by (simp add: nm received_snoc sent_snoc a_def b_def amt_def)
    qed
    ultimately have "balanced s' (adm @ [c])" by (simp add: balanced_def)
    with adm show ?thesis by simp
  qed
qed

lemma run_balanced:
  "balanced s adm \<Longrightarrow> run X s cs = (rs, s') \<Longrightarrow> balanced s' (adm @ admitted rs)"
proof (induction cs arbitrary: s adm rs)
  case Nil
  then show ?case by (simp add: admitted_def)
next
  case (Cons c cs)
  obtain r s1 where sub: "submit X s c = (r, s1)" by (cases "submit X s c")
  obtain rs1 where rest: "run X s1 cs = (rs1, s')" and rs: "rs = (c, r) # rs1"
    using Cons.prems(2) sub by (auto split: prod.splits)
  have "balanced s1 (if is_admitted r then adm @ [c] else adm)"
    using Cons.prems(1) sub by (rule submit_balanced)
  then have "balanced s' ((if is_admitted r then adm @ [c] else adm) @ admitted rs1)"
    using rest by (rule Cons.IH)
  then show ?case by (cases "is_admitted r") (simp_all add: rs admitted_def)
qed

lemma balances_are_sums:
  assumes "run X empty_node cs = (rs, s)" and "ad \<in> set (addresses s)"
  shows "amount ad = 0 + received (address ad) (admitted rs) - sent (address ad) (admitted rs)"
proof -
  have "balanced empty_node []" by (simp add: balanced_def empty_node_def)
  then have "balanced s ([] @ admitted rs)" using assms(1) by (rule run_balanced)
  moreover obtain k where "k < length (addresses s)" "addresses s ! k = ad"
    using assms(2) by (auto simp: in_set_conv_nth)
  ultimately show ?thesis by (auto simp: balanced_def)
qed

text \<open>
  As long as no call carries a negative amount, no balance becomes negative.
\<close>

lemma submit_nonneg:
  assumes nn: "\<forall>k < length (addresses s). 0 \<le> amount (addresses s ! k)"
    and amt: "0 \<le> c_amount c" and sub: "submit X s c = (r, s')"
  shows "\<forall>k < length (addresses s'). 0 \<le> amount (addresses s' ! k)"
proof -
  have grown: "\<forall>k < length (addresses s1). 0 \<le> amount (addresses s1 ! k)"
    if "getOrCreateAddress s b = (q, s1)" for b q s1
    using getOrCreateAddress_cases [OF that] nn by (auto simp: nth_append less_Suc_eq)
  from sub have nt: "new_transaction X s (c_sender c) (c_recipient c) (c_amount c)
      (c_signature c) (c_message c) = (r, s')"
    by (simp add: submit_def)
  from new_transaction_effect [OF nt] show ?thesis
  proof (elim disjE conjE exE)
    assume "s' = s"
    with nn show ?thesis by simp
  next
    assume "s' = snd (getOrCreateAddress s (c_recipient c))"
    then show ?thesis using grown [of "c_recipient c"] by (auto simp: prod_eq_iff)
  next
    fix p j s1
    assume g: "getOrCreateAddress s (c_recipient c) = (Ref j, s1)"
      and v: "is_valid s1 (new_Transaction p (Ref j) (c_amount c) (c_signature c) (c_message c))"
      and s': "s' = s1\<lparr>addresses := moved (addresses s1) p j (c_amount c),
                    current_transactions := current_transactions s1 @
                      [(new_Transaction p (Ref j) (c_amount c) (c_signature c) (c_message c))
                         \<lparr>executed := True\<rparr>]\<rparr>"
    show ?thesis
    proof (intro allI impI)
      fix k assume "k < length (addresses s')"
      then have k: "k < length (addresses s1)" by (simp add: s')
      from v have "p = Ref k \<longrightarrow> c_amount c \<le> amount (addresses s1 ! k)"
        by (auto simp: is_valid_def new_Transaction_def split: if_splits)
      moreover have "0 \<le> amount (addresses s1 ! k)" using grown [OF g] k by simp
      ultimately show "0 \<le> amount (addresses s' ! k)"
        using k amt by (simp add: s' amount_moved)
    qed
  qed
qed

lemma run_nonneg:
  "\<forall>c \<in> set cs. 0 \<le> c_amount c \<Longrightarrow> \<forall>k < length (addresses s). 0 \<le> amount (addresses s ! k) \<Longrightarrow>
   run X s cs = (rs, s') \<Longrightarrow> \<forall>k < length (addresses s'). 0 \<le> amount (addresses s' ! k)"
proof (induction cs arbitrary: s rs)
  case Nil
  then show ?case by simp
next
  case (Cons c cs)
  obtain r s1 where sub: "submit X s c = (r, s1)" by (cases "submit X s c")
  obtain rs1 where rest: "run X s1 cs = (rs1, s')"
    using Cons.prems(3) sub by (auto split: prod.splits)
  have "\<forall>k < length (addresses s1). 0 \<le> amount (addresses s1 ! k)"
    using Cons.prems(2) _ sub by (rule submit_nonneg) (use Cons.prems(1) in simp)
  with Cons.prems(1) rest show ?case by (intro Cons.IH [of s1 rs1]) simp_all
qed

lemma balances_stay_nonnegative:
  assumes "\<forall>c \<in> set cs. 0 \<le> c_amount c" and "run X empty_node cs = (rs, s)"
    and "ad \<in> set (addresses s)"
  shows "0 \<le> amount ad"
proof -
  have "\<forall>k < length (addresses s). 0 \<le> amount (addresses s ! k)"
    using assms(1) _ assms(2) by (rule run_nonneg) (simp add: empty_node_def)
  with assms(3) show ?thesis by (auto simp: in_set_conv_nth)
qed

subsection \<open>Indices of the blocks a node forges\<close>

text \<open>
  \<open>new_block\<close> gives a block the length of the chain as its index, and
  \<open>new_transaction\<close> does not touch the chain. A chain that a node builds from the
  empty one by these two operations therefore has every index at its position, and on
  such a chain an admitted transaction returns the chain length.
\<close>

lemma new_transaction_chain:
  "new_transaction X s a b amt sig msg = (r, s') \<Longrightarrow> the_chain s' = the_chain s"
  using getOrCreateAddress_chain [of s b]
  by (auto simp: new_transaction_def Let_def split: sum.splits prod.splits if_splits
        bool.splits outcome.splits dest!: execute_transaction_chain)

lemma new_block_chain:
  assumes "new_block X now s prf prev = (r, s')"
  shows "the_chain s' = the_chain s \<or>
         (\<exists>b. the_chain s' = the_chain s @ [b] \<and> index b = int (length (the_chain s)))"
  using assms
  by (auto simp: new_block_def Let_def split: sum.splits outcome.splits if_splits)

lemma index_is_position_snoc:
  "index_is_position chain \<Longrightarrow> index b = int (length chain) \<Longrightarrow> index_is_position (chain @ [b])"
  by (auto simp: index_is_position_def nth_append less_Suc_eq)

lemma perform_positions:
  "index_is_position (the_chain s) \<Longrightarrow> index_is_position (the_chain (perform X s ops))"
proof (induction ops arbitrary: s)
  case Nil
  then show ?case by simp
next
  case (Cons o1 ops)
  show ?case
  proof (cases o1)
    case (Submit c)
    have "the_chain (snd (submit X s c)) = the_chain s"
      using new_transaction_chain [of X s] by (cases "submit X s c") (auto simp: submit_def)
    with Cons Submit show ?thesis by simp
  next
    case (Forge now nonce prev)
    have "index_is_position (the_chain (snd (new_block X now s nonce prev)))"
      using new_block_chain [of X now s nonce prev] Cons.prems
      by (cases "new_block X now s nonce prev") (auto intro: index_is_position_snoc)
    with Cons.IH Forge show ?thesis by simp
  qed
qed

lemma own_chain_returns_length:
  assumes "s = perform X empty_node ops"
    and "new_transaction X s a b amt sig msg = (Returns (Some i), s')"
  shows "i = int (length (the_chain s))"
proof -
  have "index_is_position (the_chain empty_node)"
    by (simp add: index_is_position_def empty_node_def)
  then have "index_is_position (the_chain s)" unfolding assms(1) by (rule perform_positions)
  moreover have "i = (if the_chain s = [] then 0 else index (last (the_chain s)) + 1)"
    using assms(2) getOrCreateAddress_chain [of s b]
    by (auto simp: new_transaction_def Let_def split: sum.splits prod.splits if_splits
        bool.splits outcome.splits dest!: execute_transaction_chain)
  ultimately show ?thesis
    by (cases "the_chain s" rule: rev_cases) (auto simp: index_is_position_def nth_append)
qed


end
